theory Spec2Isabelle
  imports Main "HOL-Library.Word"
begin

text \<open>
  The H.265 publisher of image_transport_plugins (\<open>h265_publisher.cpp\<close>).
  \<open>H265Publisher::publish\<close> configures the encoder on its first call, converts the
  image, submits it to the encoder and serialises every packet the encoder returns into the
  data of a \<open>CompressedImage\<close> message.  The model follows the function block by block,
  with the line numbers of the source; libav, which the function calls, is a parameter.
\<close>

section \<open>Memory: bytes, addresses, native integers\<close>

text \<open>
  \<open>H265Publisher::publish\<close> serialises an \<open>AVPacket\<close> with raw \<open>memcpy\<close> calls whose
  sources are addresses inside the packet structure.  Two of them take the address of a
  pointer member (\<open>&avPacket->data\<close>, \<open>&avPacket->side_data[i].data\<close>), so what is copied
  depends on what lies in memory at that address.  The packet is therefore kept in an explicit
  store, a function from 64-bit addresses to bytes, and every value the code uses is read from
  it.  Integers are stored least significant byte first (the byte order of the x86-64 and
  AArch64 hosts the package is built for).  Every address can be read; the one invalid
  pointer the model treats as a fault is a null \<open>avPacket->buf\<close>, which line 277 tests
  for and line 311 dereferences without a test.
\<close>

type_synonym byte = "8 word"
type_synonym addr = "64 word"
type_synonym heap = "addr \<Rightarrow> byte"

definition load_bytes :: "heap \<Rightarrow> addr \<Rightarrow> nat \<Rightarrow> byte list" where
  "load_bytes h a n = map (\<lambda>i. h (a + of_nat i)) [0..<n]"

definition store_bytes :: "heap \<Rightarrow> addr \<Rightarrow> byte list \<Rightarrow> heap" where
  "store_bytes h a bs = (\<lambda>x. if unat (x - a) < length bs then bs ! unat (x - a) else h x)"

fun le_val :: "byte list \<Rightarrow> nat" where
  "le_val [] = 0"
| "le_val (b # bs) = unat b + 256 * le_val bs"

fun le_bytes :: "nat \<Rightarrow> nat \<Rightarrow> byte list" where
  "le_bytes 0 v = []"
| "le_bytes (Suc n) v = of_nat (v mod 256) # le_bytes n (v div 256)"

definition load_i32 :: "heap \<Rightarrow> addr \<Rightarrow> 32 word" where
  "load_i32 h a = of_nat (le_val (load_bytes h a 4))"

definition load_i64 :: "heap \<Rightarrow> addr \<Rightarrow> 64 word" where
  "load_i64 h a = of_nat (le_val (load_bytes h a 8))"

definition store_i32 :: "heap \<Rightarrow> addr \<Rightarrow> 32 word \<Rightarrow> heap" where
  "store_i32 h a v = store_bytes h a (le_bytes 4 (unat v))"

definition store_i64 :: "heap \<Rightarrow> addr \<Rightarrow> 64 word \<Rightarrow> heap" where
  "store_i64 h a v = store_bytes h a (le_bytes 8 (unat v))"

text \<open>Pointers are 64-bit values; the null pointer is address 0.\<close>

definition load_ptr :: "heap \<Rightarrow> addr \<Rightarrow> addr" where
  "load_ptr h a = load_i64 h a"

definition store_ptr :: "heap \<Rightarrow> addr \<Rightarrow> addr \<Rightarrow> heap" where
  "store_ptr h a v = store_i64 h a v"

text \<open>
  The declarations of \<open>AVPacket\<close>, \<open>AVBufferRef\<close> and \<open>AVPacketSideData\<close> come from the
  libavcodec headers, which are not part of the repository.  The byte offsets of the members the
  code touches are a parameter of the model; \<open>lavc_lp64\<close> is the layout of libavcodec 58
  on an LP64 target, used to run the model on concrete memories.
\<close>

record av_layout =
  pkt_buf :: nat
  pkt_pts :: nat
  pkt_dts :: nat
  pkt_data :: nat
  pkt_size :: nat
  pkt_stream_index :: nat
  pkt_flags :: nat
  pkt_side_data :: nat
  pkt_side_data_elems :: nat
  pkt_duration :: nat
  pkt_pos :: nat
  buf_data :: nat
  buf_size :: nat
  sd_data :: nat
  sd_size :: nat
  sd_type :: nat
  sd_sizeof :: nat

definition lavc_lp64 :: av_layout where
  "lavc_lp64 = \<lparr> pkt_buf = 0, pkt_pts = 8, pkt_dts = 16, pkt_data = 24, pkt_size = 32,
     pkt_stream_index = 36, pkt_flags = 40, pkt_side_data = 48, pkt_side_data_elems = 56,
     pkt_duration = 64, pkt_pos = 72, buf_data = 8, buf_size = 16,
     sd_data = 0, sd_size = 8, sd_type = 12, sd_sizeof = 16 \<rparr>"

definition member :: "addr \<Rightarrow> nat \<Rightarrow> addr" where
  "member p off = p + of_nat off"

text \<open>Address of \<open>avPacket->side_data[i]\<close>.\<close>

definition side_data_at :: "av_layout \<Rightarrow> heap \<Rightarrow> addr \<Rightarrow> nat \<Rightarrow> addr" where
  "side_data_at L h p i = load_ptr h (member p (pkt_side_data L)) + of_nat (i * sd_sizeof L)"

section \<open>The packet serialiser (publish, lines 309 to 380)\<close>

datatype fault = Null_Deref | Length_Error | Wild_Copy | Div_By_Zero

text \<open>
  \<open>compressed.data\<close> is a \<open>std::vector<uint8_t>\<close> resized once to \<open>size_data\<close> (new elements
  are zero) and then written through \<open>memcpy(&compressed.data[index], src, n)\<close>.  A
  \<open>memcpy\<close> does not check the vector's size: bytes that fall at or after
  \<open>compressed.data.size()\<close> land behind the vector's storage.  The model keeps them in
  \<open>past_end\<close>, in the order written, so that an overrun is visible in the result; the vector
  itself never grows.
\<close>

record writer =
  vec :: "byte list"
  past_end :: "byte list"
  index_data_compressed :: nat

definition resize :: "int \<Rightarrow> fault + writer" where
  "resize n = (if n < 0 then Inl Length_Error
     else Inr \<lparr> vec = replicate (nat n) 0, past_end = [], index_data_compressed = 0 \<rparr>)"

text \<open>
  One \<open>memcpy(&compressed.data[index], src, n)\<close> followed by \<open>index += n\<close>.  The count is a
  C \<open>int\<close> converted to \<open>size_t\<close>: a negative count is a copy of more than \<open>2^63\<close> bytes,
  which cannot complete.  A vector resized to no element has no storage: its
  \<open>&compressed.data[0]\<close> is the null pointer, and a copy of one byte or more through it
  faults.
\<close>

definition memcpy :: "heap \<Rightarrow> addr \<Rightarrow> int \<Rightarrow> writer \<Rightarrow> fault + writer" where
  "memcpy h src n w =
     (if n < 0 then Inl Wild_Copy
      else if vec w = [] \<and> 0 < n then Inl Null_Deref
      else let bs = load_bytes h src (nat n); i = index_data_compressed w; v = vec w in
        Inr \<lparr> vec = take (length v) (take i v @ bs @ drop (i + length bs) v),
              past_end = past_end w @ drop (length v - i) bs,
              index_data_compressed = i + length bs \<rparr>)"

definition and_then :: "fault + 'a \<Rightarrow> ('a \<Rightarrow> fault + 'b) \<Rightarrow> fault + 'b" where
  "and_then r f = (case r of Inl e \<Rightarrow> Inl e | Inr x \<Rightarrow> f x)"

text \<open>The first loop (lines 313 to 316): \<open>size_data += side_data[i].size + 4 + 4\<close>, in \<open>int\<close>.\<close>

primrec side_data_total :: "av_layout \<Rightarrow> heap \<Rightarrow> addr \<Rightarrow> nat list \<Rightarrow> 32 word \<Rightarrow> 32 word" where
  "side_data_total L h p [] size_data = size_data"
| "side_data_total L h p (i # is) size_data =
     side_data_total L h p is
       (size_data + load_i32 h (member (side_data_at L h p i) (sd_size L)) + 4 + 4)"

text \<open>The second loop (lines 361 to 373): size, type, then \<open>size\<close> bytes read from
  \<open>&avPacket->side_data[i].data\<close>, the address of the entry's pointer member.\<close>

primrec copy_side_data :: "av_layout \<Rightarrow> heap \<Rightarrow> addr \<Rightarrow> nat list \<Rightarrow> writer \<Rightarrow> fault + writer" where
  "copy_side_data L h p [] w = Inr w"
| "copy_side_data L h p (i # is) w =
     (let e = side_data_at L h p i in
      and_then (memcpy h (member e (sd_size L)) 4 w) (\<lambda>w.
      and_then (memcpy h (member e (sd_type L)) 4 w) (\<lambda>w.
      and_then (memcpy h (member e (sd_data L)) (sint (load_i32 h (member e (sd_size L)))) w) (\<lambda>w.
      copy_side_data L h p is w))))"

text \<open>The indices \<open>0 \<le> i < side_data_elems\<close> both loops run over.\<close>

definition side_data_indices :: "av_layout \<Rightarrow> heap \<Rightarrow> addr \<Rightarrow> nat list" where
  "side_data_indices L h p = [0..<nat (sint (load_i32 h (member p (pkt_side_data_elems L))))]"

definition size_data :: "av_layout \<Rightarrow> heap \<Rightarrow> addr \<Rightarrow> 32 word" where
  "size_data L h p =
     (let buf = load_ptr h (member p (pkt_buf L)) in
      side_data_total L h p (side_data_indices L h p)
        (4 + load_i32 h (member buf (buf_size L)) + 8 + 8 + load_i32 h (member p (pkt_size L))
           + 4 + 4 + 4 + load_i32 h (member p (pkt_side_data_elems L)) + 8 + 8))"

definition serialize :: "av_layout \<Rightarrow> heap \<Rightarrow> addr \<Rightarrow> fault + writer" where
  "serialize L h p =
     (let buf = load_ptr h (member p (pkt_buf L)) in
      if buf = 0 then Inl Null_Deref
      else
        and_then (resize (sint (size_data L h p))) (\<lambda>w.
        and_then (memcpy h (member buf (buf_size L)) 4 w) (\<lambda>w.
        and_then (memcpy h (load_ptr h (member buf (buf_data L)))
                    (sint (load_i32 h (member buf (buf_size L)))) w) (\<lambda>w.
        and_then (memcpy h (member p (pkt_size L)) 4 w) (\<lambda>w.
        and_then (memcpy h (member p (pkt_data L))
                    (sint (load_i32 h (member p (pkt_size L)))) w) (\<lambda>w.
        and_then (memcpy h (member p (pkt_pts L)) 8 w) (\<lambda>w.
        and_then (memcpy h (member p (pkt_dts L)) 8 w) (\<lambda>w.
        and_then (memcpy h (member p (pkt_stream_index L)) 4 w) (\<lambda>w.
        and_then (memcpy h (member p (pkt_flags L)) 4 w) (\<lambda>w.
        and_then (memcpy h (member p (pkt_side_data_elems L)) 4 w) (\<lambda>w.
        and_then (copy_side_data L h p (side_data_indices L h p) w) (\<lambda>w.
        and_then (memcpy h (member p (pkt_duration L)) 8 w) (\<lambda>w.
        memcpy h (member p (pkt_pos L)) 8 w)))))))))))))"

text \<open>
  What the wire format's fields stand for: the payload is the \<open>size\<close> bytes that
  \<open>avPacket->data\<close> points to, the bytes of side-data entry \<open>i\<close> are the \<open>size\<close> bytes that
  \<open>side_data[i].data\<close> points to.
\<close>

definition payload :: "av_layout \<Rightarrow> heap \<Rightarrow> addr \<Rightarrow> byte list" where
  "payload L h p = load_bytes h (load_ptr h (member p (pkt_data L)))
     (nat (sint (load_i32 h (member p (pkt_size L)))))"

definition side_data_bytes :: "av_layout \<Rightarrow> heap \<Rightarrow> addr \<Rightarrow> nat \<Rightarrow> byte list" where
  "side_data_bytes L h p i =
     (let e = side_data_at L h p i in
      load_bytes h (load_ptr h (member e (sd_data L)))
        (nat (sint (load_i32 h (member e (sd_size L))))))"

section \<open>Encoder context, frames and messages\<close>

datatype AVPixelFormat = AV_PIX_FMT_NONE | AV_PIX_FMT_YUV420P | AV_PIX_FMT_RGB24 | AV_PIX_FMT_RGB0

datatype AVMediaType = AVMEDIA_TYPE_UNKNOWN | AVMEDIA_TYPE_VIDEO

record AVRational =
  num :: int
  den :: int

text \<open>
  The members of \<open>AVCodecContext\<close> that \<open>publish\<close> writes.  \<open>preset\<close> and \<open>crf\<close> are the
  private options set through \<open>av_opt_set\<close>.
\<close>

record AVCodecContext =
  height :: "32 word"
  width :: "32 word"
  pix_fmt :: AVPixelFormat
  codec_type :: AVMediaType
  time_base :: AVRational
  framerate :: AVRational
  gop_size :: int
  thread_count :: int
  max_b_frames :: int
  sw_pix_fmt :: AVPixelFormat
  refs :: int
  preset :: "string option"
  crf :: "string option"

record AVFrame =
  frame_width :: "32 word"
  frame_height :: "32 word"
  format :: AVPixelFormat
  pts :: "64 word"

record SwsContext =
  srcW :: "32 word"
  srcH :: "32 word"
  srcFormat :: AVPixelFormat
  dstW :: "32 word"
  dstH :: "32 word"
  dstFormat :: AVPixelFormat

record Header =
  stamp_sec :: "32 word"
  stamp_nanosec :: "32 word"
  frame_id :: string

record Image =
  header :: Header
  img_height :: "32 word"
  img_width :: "32 word"
  img_data :: "byte list"

record CompressedImage =
  c_header :: Header
  c_format :: string
  c_data :: "byte list"

text \<open>\<open>AV_NOPTS_VALUE\<close> is \<open>(int64_t) 0x8000000000000000\<close> in libavutil.\<close>

definition AV_NOPTS_VALUE :: "64 word" where
  "AV_NOPTS_VALUE = 0x8000000000000000"

text \<open>C division and remainder on \<open>int\<close> truncate towards zero.\<close>

definition c_div :: "int \<Rightarrow> int \<Rightarrow> int" where
  "c_div a b = sgn a * sgn b * (\<bar>a\<bar> div \<bar>b\<bar>)"

definition c_mod :: "int \<Rightarrow> int \<Rightarrow> int" where
  "c_mod a b = a - b * c_div a b"

text \<open>
  Modelled from the spec: \<open>av_rescale_q\<close> is a libavutil function and no source for it is
  in the repository.  The spec describes it as the rescale of a timestamp from an input to an
  output time base; it is the quotient \<open>a * bq / cq\<close> rounded to the nearest integer, halves
  away from zero, and \<open>INT64_MIN\<close> where the quotient is undefined or does not fit 64 bits.
\<close>

definition round_near_inf :: "int \<Rightarrow> int \<Rightarrow> int" where
  "round_near_inf n c = sgn n * ((2 * \<bar>n\<bar> + c) div (2 * c))"

definition av_rescale_q :: "64 word \<Rightarrow> AVRational \<Rightarrow> AVRational \<Rightarrow> 64 word" where
  "av_rescale_q a bq cq =
     (let b = num bq * den cq; c = num cq * den bq in
      if c \<le> 0 \<or> b < 0 then - (2 ^ 63)
      else let r = round_near_inf (sint a * b) c in
        if - (2 ^ 63) \<le> r \<and> r < 2 ^ 63 then word_of_int r else - (2 ^ 63))"

text \<open>Lines 290 to 304: the two timestamps of the packet are rescaled in place.\<close>

definition rescale_member :: "AVRational \<Rightarrow> heap \<Rightarrow> addr \<Rightarrow> heap" where
  "rescale_member tb h a =
     (if load_i64 h a \<noteq> AV_NOPTS_VALUE
      then store_i64 h a (av_rescale_q (load_i64 h a) tb tb) else h)"

definition rescale_timestamps :: "av_layout \<Rightarrow> AVCodecContext \<Rightarrow> heap \<Rightarrow> addr \<Rightarrow> heap" where
  "rescale_timestamps L c h p =
     rescale_member (time_base c) (rescale_member (time_base c) h (member p (pkt_pts L)))
       (member p (pkt_dts L))"

section \<open>The publisher\<close>

text \<open>
  Calls that leave the publisher are recorded, in order, in a trace: the lock, the libav calls
  with the values that matter to the caller, and the messages handed to \<open>publish_fn\<close>.
  \<open>Receive_Packet\<close> keeps the result of \<open>avcodec_receive_packet\<close> and the memory as the call
  left it, which holds the packet the encoder emitted.
\<close>

datatype event =
    Lock
  | Unlock
  | Codec_Open int
  | Frame_Alloc AVFrame
  | Sws_Get_Context SwsContext
  | Image_Copy
  | Sws_Scale
  | Packet_Alloc addr
  | Send_Frame AVFrame int
  | Receive_Packet int heap
  | Publish CompressedImage
  | Packet_Unref

text \<open>
  libav is a parameter: the encoder has a state of its own (type \<open>'e\<close>) and each call returns
  its result with the next state.  The calls that fill or release a packet work on the
  memory.  They are handed the context (they read it), and return no new context: the members
  listed above are options of the caller, which libav leaves as set.
\<close>

record ('e, 'd) libav =
  layout :: av_layout
  av_pix_fmt_desc_get :: "AVPixelFormat \<Rightarrow> 'd option"
  av_get_bits_per_pixel :: "'d \<Rightarrow> int"
  avcodec_open2 :: "'e \<Rightarrow> AVCodecContext \<Rightarrow> int \<times> 'e"
  av_packet_alloc :: "'e \<Rightarrow> heap \<Rightarrow> addr \<times> heap \<times> 'e"
  avcodec_send_frame :: "'e \<Rightarrow> AVCodecContext \<Rightarrow> AVFrame \<Rightarrow> int \<times> 'e"
  avcodec_receive_packet :: "'e \<Rightarrow> AVCodecContext \<Rightarrow> heap \<Rightarrow> addr \<Rightarrow> int \<times> heap \<times> 'e"
  av_packet_unref :: "'e \<Rightarrow> heap \<Rightarrow> addr \<Rightarrow> heap \<times> 'e"

text \<open>
  The members of \<open>H265Publisher\<close> that \<open>publish\<close> uses, named as in the source without
  the trailing underscore (\<open>codec_ctx\<close> is the member \<open>context\<close>).  The class declaration is
  in a header that is not part of the sources: pointer members are \<open>None\<close> while null,
  \<open>frameCount\<close> has the width of the \<open>pts\<close> member it is assigned to, and \<open>inputLineSizes\<close>
  keeps the arguments \<open>av_image_fill_linesizes\<close> was called with.  The state is the one after
  a constructor that found the codec and allocated the context.
\<close>

record 'e H265Publisher =
  codec_ctx :: AVCodecContext
  avInFrame :: "AVFrame option"
  avOutFrame :: "AVFrame option"
  swsCtx :: "SwsContext option"
  inputLineSizes :: "(AVPixelFormat \<times> 32 word) option"
  frameCount :: "64 word"
  frameIdx :: int
  encoder :: 'e
  mem :: heap
  trace :: "event list"

datatype 'e outcome =
    Returned "'e H265Publisher"
  | Crashed fault "'e H265Publisher"

primrec final :: "'e outcome \<Rightarrow> 'e H265Publisher" where
  "final (Returned s) = s"
| "final (Crashed f s) = s"

definition log :: "event \<Rightarrow> 'e H265Publisher \<Rightarrow> 'e H265Publisher" where
  "log ev s = s\<lparr> trace := trace s @ [ev] \<rparr>"

text \<open>Lines 115 to 151: the assignments to the context, \<open>fps = 30\<close>.\<close>

definition configure :: "Image \<Rightarrow> AVCodecContext \<Rightarrow> AVCodecContext" where
  "configure message c =
     (let fps = 30 in
      c\<lparr> height := img_height message,
         width := img_width message,
         pix_fmt := AV_PIX_FMT_YUV420P,
         codec_type := AVMEDIA_TYPE_VIDEO,
         time_base := \<lparr> num = 1, den = fps \<rparr>,
         framerate := \<lparr> num = fps, den = 1 \<rparr>,
         gop_size := fps * 2,
         thread_count := 5,
         max_b_frames := 0,
         sw_pix_fmt := AV_PIX_FMT_YUV420P,
         max_b_frames := 3,
         refs := 3,
         preset := Some ''ultrafast'',
         crf := Some ''35'' \<rparr>)"

text \<open>
  Lines 113 to 210, the block under \<open>if (this->context_->height == 0)\<close>.  It either returns
  from \<open>publish\<close> (\<open>Return_Early\<close>) or falls through to the encoding (\<open>Fall_Through\<close>).
\<close>

datatype 'e flow = Return_Early "'e H265Publisher" | Fall_Through "'e H265Publisher"

definition allocate :: "Image \<Rightarrow> 'e H265Publisher \<Rightarrow> 'e H265Publisher" where
  "allocate message s =
     (let inF = \<lparr> frame_width = img_width message, frame_height = img_height message,
                  format = AV_PIX_FMT_RGB24, pts = AV_NOPTS_VALUE \<rparr>;
          s = log (Frame_Alloc inF) (s\<lparr> avInFrame := Some inF \<rparr>);
          s = s\<lparr> inputLineSizes := Some (AV_PIX_FMT_RGB24, img_width message) \<rparr>;
          sws = \<lparr> srcW = img_width message, srcH = img_height message,
                  srcFormat = AV_PIX_FMT_RGB24,
                  dstW = width (codec_ctx s), dstH = height (codec_ctx s),
                  dstFormat = AV_PIX_FMT_RGB0 \<rparr>;
          s = log (Sws_Get_Context sws) (s\<lparr> swsCtx := Some sws \<rparr>);
          outF = \<lparr> frame_width = width (codec_ctx s), frame_height = height (codec_ctx s),
                   format = sw_pix_fmt (codec_ctx s), pts = AV_NOPTS_VALUE \<rparr>
      in log (Frame_Alloc outF) (s\<lparr> avOutFrame := Some outF \<rparr>))"

definition config_block :: "('e, 'd) libav \<Rightarrow> Image \<Rightarrow> 'e H265Publisher \<Rightarrow> 'e flow" where
  "config_block lib message s =
     (let s = s\<lparr> codec_ctx := configure message (codec_ctx s) \<rparr> in
      case av_pix_fmt_desc_get lib AV_PIX_FMT_RGB24 of
        None \<Rightarrow> Return_Early s
      | Some desc \<Rightarrow>
          let bytesPerPixel = c_div (av_get_bits_per_pixel lib desc) 8 in
          if \<not> (bytesPerPixel = 3 \<and> \<not> (c_mod (av_get_bits_per_pixel lib desc) 8 \<noteq> 0))
          then Return_Early s
          else
            case avcodec_open2 lib (encoder s) (codec_ctx s) of (r, e) \<Rightarrow>
              let s = log (Codec_Open r) (s\<lparr> encoder := e \<rparr>) in
              if r < 0 then Return_Early s
              else Fall_Through (allocate message s))"

text \<open>
  Lines 246 to 269.  \<open>ret\<close> is set to \<open>-1\<close> before the loop, so the body runs at least once;
  every result other than 0 reaches a \<open>continue\<close>.  The loop may run for ever: the function
  is partial, \<open>None\<close> is a call that does not return.  \<open>frameIdx % framerate.num\<close> traps
  when \<open>framerate.num\<close> is 0.
\<close>

partial_function (option) send_loop ::
  "('e, 'd) libav \<Rightarrow> AVFrame \<Rightarrow> 'e H265Publisher \<Rightarrow> 'e outcome option" where
  "send_loop lib frameToEncode s =
     (case avcodec_send_frame lib (encoder s) (codec_ctx s) frameToEncode of (ret, e) \<Rightarrow>
        let s' = log (Send_Frame frameToEncode ret) (s\<lparr> encoder := e \<rparr>) in
        if ret = 0
        then (if num (framerate (codec_ctx s')) = 0 then Some (Crashed Div_By_Zero s')
              else Some (Returned
                (s'\<lparr> frameIdx := c_mod (frameIdx s') (num (framerate (codec_ctx s'))) + 1 \<rparr>)))
        else send_loop lib frameToEncode s')"

text \<open>
  Lines 273 to 389.  \<open>ret\<close> is 0 when the loop is reached.  Each round asks the encoder for
  a packet; a packet (\<open>ret >= 0\<close>) is rescaled, serialised and handed to \<open>publish_fn\<close>,
  anything else ends the loop.  The message carries the vector; bytes written behind it are
  not part of it.
\<close>

partial_function (option) drain_loop ::
  "('e, 'd) libav \<Rightarrow> Image \<Rightarrow> addr \<Rightarrow> 'e H265Publisher \<Rightarrow> 'e outcome option" where
  "drain_loop lib message avPacket s =
     (case avcodec_receive_packet lib (encoder s) (codec_ctx s) (mem s) avPacket of
        (ret, h, e) \<Rightarrow>
          let s = log (Receive_Packet ret h) (s\<lparr> encoder := e, mem := h \<rparr>) in
          if ret \<ge> 0 then
            let s = s\<lparr> mem := rescale_timestamps (layout lib) (codec_ctx s) (mem s) avPacket \<rparr> in
            case serialize (layout lib) (mem s) avPacket of
              Inl f \<Rightarrow> Some (Crashed f s)
            | Inr w \<Rightarrow>
                drain_loop lib message avPacket
                  (log (Publish \<lparr> c_header = header message, c_format = ''h265'',
                                  c_data = vec w \<rparr>) s)
          else Some (Returned s))"

text \<open>
  Lines 212 to 391: conversion, the timestamp from \<open>frameCount\<close>, the first submission
  (line 241, its result overwritten), the two loops, and the release of the packet.
\<close>

definition encode :: "('e, 'd) libav \<Rightarrow> Image \<Rightarrow> 'e H265Publisher \<Rightarrow> 'e outcome option" where
  "encode lib message s =
     (case avInFrame s of
        None \<Rightarrow> Some (Crashed Null_Deref s)
      | Some inF \<Rightarrow>
          let s = log Image_Copy s in
          case avOutFrame s of
            None \<Rightarrow> Some (Crashed Null_Deref s)
          | Some outF \<Rightarrow>
              let s = log Sws_Scale s;
                  frameToEncode = outF\<lparr> pts := frameCount s \<rparr>;
                  s = s\<lparr> avOutFrame := Some frameToEncode, frameCount := frameCount s + 1 \<rparr>
              in
              case av_packet_alloc lib (encoder s) (mem s) of (avPacket, h, e) \<Rightarrow>
                let s = log (Packet_Alloc avPacket) (s\<lparr> encoder := e, mem := h \<rparr>) in
                if avPacket = 0 then Some (Crashed Null_Deref s)
                else
                  let s = s\<lparr> mem := store_i32
                             (store_ptr (mem s) (member avPacket (pkt_data (layout lib))) 0)
                             (member avPacket (pkt_size (layout lib))) 0 \<rparr>
                  in
                  case avcodec_send_frame lib (encoder s) (codec_ctx s) frameToEncode of
                    (ret, e) \<Rightarrow>
                      let s = log (Send_Frame frameToEncode ret) (s\<lparr> encoder := e \<rparr>) in
                      case send_loop lib frameToEncode s of
                        None \<Rightarrow> None
                      | Some (Crashed f s) \<Rightarrow> Some (Crashed f s)
                      | Some (Returned s) \<Rightarrow>
                          (case drain_loop lib message avPacket s of
                             None \<Rightarrow> None
                           | Some (Crashed f s) \<Rightarrow> Some (Crashed f s)
                           | Some (Returned s) \<Rightarrow>
                               (case av_packet_unref lib (encoder s) (mem s) avPacket of
                                  (h, e) \<Rightarrow>
                                    Some (Returned (log Unlock (log Packet_Unref
                                      (s\<lparr> encoder := e, mem := h \<rparr>)))))))"

text \<open>
  \<open>publish\<close>.  The \<open>std::unique_lock\<close> of line 110 is taken on entry and released by its
  destructor on every return.
\<close>

definition publish :: "('e, 'd) libav \<Rightarrow> Image \<Rightarrow> 'e H265Publisher \<Rightarrow> 'e outcome option" where
  "publish lib message s =
     (let s = log Lock s in
      case (if height (codec_ctx s) = 0 then config_block lib message s else Fall_Through s) of
        Return_Early s \<Rightarrow> Some (Returned (log Unlock s))
      | Fall_Through s \<Rightarrow> encode lib message s)"

text \<open>A session: the calls for a list of frames, one after the other, as long as they return.\<close>

fun publish_all ::
  "('e, 'd) libav \<Rightarrow> Image list \<Rightarrow> 'e H265Publisher \<Rightarrow> 'e outcome option" where
  "publish_all lib [] s = Some (Returned s)"
| "publish_all lib (message # rest) s =
     (case publish lib message s of
        None \<Rightarrow> None
      | Some (Crashed f s') \<Rightarrow> Some (Crashed f s')
      | Some (Returned s') \<Rightarrow> publish_all lib rest s')"

text \<open>
  The publisher as the constructor leaves it when the codec is found and the context is
  allocated: \<open>avcodec_alloc_context3\<close> gives a context with \<open>height = 0\<close> and the other
  defaults of libavcodec.

  Modelled from the spec: the initial value of \<open>frameCount\<close> is set in the class
  declaration, which is not in the sources; the spec has the first frame of a fresh pipeline
  tagged with 0, so the counter starts at 0.
\<close>

definition default_context :: AVCodecContext where
  "default_context = \<lparr> height = 0, width = 0, pix_fmt = AV_PIX_FMT_NONE,
     codec_type = AVMEDIA_TYPE_VIDEO, time_base = \<lparr> num = 0, den = 1 \<rparr>,
     framerate = \<lparr> num = 0, den = 1 \<rparr>, gop_size = 12, thread_count = 1, max_b_frames = 0,
     sw_pix_fmt = AV_PIX_FMT_NONE, refs = 1, preset = None, crf = None \<rparr>"

definition constructed :: "'e \<Rightarrow> heap \<Rightarrow> 'e H265Publisher" where
  "constructed e h = \<lparr> codec_ctx = default_context, avInFrame = None, avOutFrame = None,
     swsCtx = None, inputLineSizes = None, frameCount = 0, frameIdx = 0,
     encoder = e, mem = h, trace = [] \<rparr>"

section \<open>Properties of traces\<close>

text \<open>Opening the encoder and allocating the frames and the scaling context.\<close>

primrec is_configuration :: "event \<Rightarrow> bool" where
  "is_configuration Lock = False"
| "is_configuration Unlock = False"
| "is_configuration (Codec_Open r) = True"
| "is_configuration (Frame_Alloc f) = True"
| "is_configuration (Sws_Get_Context c) = True"
| "is_configuration Image_Copy = False"
| "is_configuration Sws_Scale = False"
| "is_configuration (Packet_Alloc p) = False"
| "is_configuration (Send_Frame f r) = False"
| "is_configuration (Receive_Packet r h) = False"
| "is_configuration (Publish c) = False"
| "is_configuration Packet_Unref = False"

text \<open>The presentation timestamps of the frames handed to \<open>avcodec_send_frame\<close>, in order.\<close>

primrec submitted_pts :: "event list \<Rightarrow> 64 word list" where
  "submitted_pts [] = []"
| "submitted_pts (ev # evs) =
     (case ev of Send_Frame f r \<Rightarrow> pts f # submitted_pts evs | _ \<Rightarrow> submitted_pts evs)"

text \<open>The results of the calls of \<open>avcodec_open2\<close> and the messages given to \<open>publish_fn\<close>.\<close>

primrec opened :: "event list \<Rightarrow> int list" where
  "opened [] = []"
| "opened (ev # evs) = (case ev of Codec_Open r \<Rightarrow> r # opened evs | _ \<Rightarrow> opened evs)"

primrec published :: "event list \<Rightarrow> CompressedImage list" where
  "published [] = []"
| "published (ev # evs) = (case ev of Publish c \<Rightarrow> c # published evs | _ \<Rightarrow> published evs)"

text \<open>What a run shows from outside: how it ended, the geometry and format the context was
  left with, the three lists above and the frame counter.\<close>

record observation =
  ended :: "fault option"
  ctx_width :: "32 word"
  ctx_height :: "32 word"
  ctx_pix_fmt :: AVPixelFormat
  opens :: "int list"
  submitted :: "64 word list"
  messages :: "CompressedImage list"
  counter :: "64 word"

definition observe :: "'e outcome \<Rightarrow> observation" where
  "observe r = \<lparr>
     ended = (case r of Returned s \<Rightarrow> None | Crashed f s \<Rightarrow> Some f),
     ctx_width = width (codec_ctx (final r)),
     ctx_height = height (codec_ctx (final r)),
     ctx_pix_fmt = pix_fmt (codec_ctx (final r)),
     opens = opened (trace (final r)),
     submitted = submitted_pts (trace (final r)),
     messages = published (trace (final r)),
     counter = frameCount (final r) \<rparr>"

text \<open>
  The message \<open>publish_fn\<close> receives for a packet the encoder left in memory \<open>h\<close> at
  \<open>avPacket\<close>, when the packet is serialised as the encoder left it.
\<close>

definition envelope :: "av_layout \<Rightarrow> Image \<Rightarrow> heap \<Rightarrow> addr \<Rightarrow> CompressedImage option" where
  "envelope L message h avPacket =
     (case serialize L h avPacket of
        Inl f \<Rightarrow> None
      | Inr w \<Rightarrow> Some \<lparr> c_header = header message, c_format = ''h265'', c_data = vec w \<rparr>)"

text \<open>
  A drain that ran to its end: each packet received is followed at once by its envelope, and
  the last request is the one the encoder answered with no packet.
\<close>

fun drained :: "av_layout \<Rightarrow> Image \<Rightarrow> addr \<Rightarrow> event list \<Rightarrow> bool" where
  "drained L message avPacket [] = False"
| "drained L message avPacket (ev # evs) =
     (case ev of
        Receive_Packet r h \<Rightarrow>
          if r \<ge> 0 then
            (case evs of
               Publish c # rest \<Rightarrow>
                 envelope L message h avPacket = Some c \<and> drained L message avPacket rest
             | _ \<Rightarrow> False)
          else evs = []
      | _ \<Rightarrow> False)"

text \<open>
  The submissions of one call: the frame is sent once, then sent again until the encoder
  answers 0; every other answer is followed by another submission of the same frame.
\<close>

definition retried :: "AVFrame \<Rightarrow> event \<Rightarrow> bool" where
  "retried f ev = (case ev of Send_Frame g r \<Rightarrow> g = f \<and> r \<noteq> 0 | _ \<Rightarrow> False)"

definition retry_loop :: "AVFrame \<Rightarrow> event list \<Rightarrow> bool" where
  "retry_loop f evs = (evs \<noteq> [] \<and> last evs = Send_Frame f 0 \<and> list_all (retried f) (butlast evs))"

definition submissions :: "AVFrame \<Rightarrow> event list \<Rightarrow> bool" where
  "submissions f evs =
     (case evs of Send_Frame g r0 # loop \<Rightarrow> g = f \<and> retry_loop f loop | _ \<Rightarrow> False)"

fun is_drain :: "event \<Rightarrow> bool" where
  "is_drain (Receive_Packet r h) = True"
| "is_drain (Publish c) = True"
| "is_drain ev = False"

fun is_send :: "event \<Rightarrow> bool" where
  "is_send (Send_Frame f r) = True"
| "is_send ev = False"

text \<open>
  The packets a drain received (the memory as \<open>avcodec_receive_packet\<close> left it, for each
  answer that is not negative), in order.
\<close>

primrec received :: "event list \<Rightarrow> heap list" where
  "received [] = []"
| "received (ev # evs) =
     (case ev of
        Receive_Packet r h \<Rightarrow> if r \<ge> 0 then h # received evs else received evs
      | _ \<Rightarrow> received evs)"

text \<open>
  The place of the pts in an envelope: line 337 copies it behind the four bytes of the
  buffer size, the buffer's bytes, the four bytes of the packet size and the \<open>size\<close> bytes
  of line 333.
\<close>

definition pts_offset :: "av_layout \<Rightarrow> heap \<Rightarrow> addr \<Rightarrow> nat" where
  "pts_offset L h p =
     4 + nat (sint (load_i32 h (member (load_ptr h (member p (pkt_buf L))) (buf_size L))))
       + 4 + nat (sint (load_i32 h (member p (pkt_size L))))"

definition pts_field :: "av_layout \<Rightarrow> heap \<Rightarrow> addr \<Rightarrow> byte list \<Rightarrow> byte list" where
  "pts_field L h p bs = take 8 (drop (pts_offset L h p) bs)"

text \<open>
  The events of the encoding part of a call that returned (lines 212 to 391): the
  conversion, the packet, the submissions of one frame whose pts is the frame counter \<open>k\<close>
  at entry, the drain, and the release of the packet and of the lock.
\<close>

definition encoding :: "av_layout \<Rightarrow> Image \<Rightarrow> 64 word \<Rightarrow> event list \<Rightarrow> bool" where
  "encoding L message k evs =
     (\<exists>p f sends dr. evs = [Image_Copy, Sws_Scale, Packet_Alloc p] @ sends @ dr @ [Packet_Unref, Unlock]
        \<and> pts f = k \<and> submissions f sends \<and> drained L message p dr)"

text \<open>
  The two checks of lines 158 to 167 on the descriptor of \<open>AV_PIX_FMT_RGB24\<close>.  They depend
  on libav alone, not on the frame.
\<close>

definition checks_pass :: "('e, 'd) libav \<Rightarrow> bool" where
  "checks_pass lib =
     (case av_pix_fmt_desc_get lib AV_PIX_FMT_RGB24 of
        None \<Rightarrow> False
      | Some desc \<Rightarrow> c_div (av_get_bits_per_pixel lib desc) 8 = 3
          \<and> c_mod (av_get_bits_per_pixel lib desc) 8 = 0)"

text \<open>
  What the configuration block leaves in the trace.  When it returns from \<open>publish\<close>: nothing
  if a check fails (lines 161 and 166), the open that libav refused otherwise (line 171).
  When it falls through to the encoding: the open that libav accepted, the two frames and
  the scaler.
\<close>

definition failed_configuration :: "('e, 'd) libav \<Rightarrow> event list \<Rightarrow> bool" where
  "failed_configuration lib cfg =
     (if checks_pass lib then (\<exists>r. r < 0 \<and> cfg = [Codec_Open r]) else cfg = [])"

definition configuration :: "('e, 'd) libav \<Rightarrow> event list \<Rightarrow> bool" where
  "configuration lib cfg =
     (checks_pass lib
      \<and> (\<exists>r inF sws outF. 0 \<le> r
            \<and> cfg = [Codec_Open r, Frame_Alloc inF, Sws_Get_Context sws, Frame_Alloc outF]))"

text \<open>
  The events of one call that returned, for the guard \<open>g\<close> (\<open>context_->height\<close>) and the
  frame counter \<open>k\<close> at entry.  With the guard at 0 the call runs the configuration block
  and either returns from it, when the configuration fails, or goes on to the encoding; with
  the guard set it is the lock and the encoding, nothing else.
\<close>

definition call_trace ::
  "('e, 'd) libav \<Rightarrow> 32 word \<Rightarrow> 64 word \<Rightarrow> Image \<Rightarrow> event list \<Rightarrow> bool" where
  "call_trace lib g k message evs =
     (if g = 0
      then (\<exists>cfg. failed_configuration lib cfg \<and> evs = Lock # cfg @ [Unlock])
         \<or> (\<exists>cfg rest. configuration lib cfg \<and> evs = Lock # cfg @ rest
               \<and> encoding (layout lib) message k rest)
      else (\<exists>rest. evs = Lock # rest \<and> encoding (layout lib) message k rest))"

text \<open>
  The events of a session that returned, call by call.  The guard after a call is the height
  of the call's frame if it was 0 (line 115), and the frame counter has grown by one if the
  call reached the conversion (line 228).
\<close>

fun session_trace ::
  "('e, 'd) libav \<Rightarrow> 32 word \<Rightarrow> 64 word \<Rightarrow> Image list \<Rightarrow> event list list \<Rightarrow> bool" where
  "session_trace lib g k [] segs = (segs = [])"
| "session_trace lib g k (message # rest) [] = False"
| "session_trace lib g k (message # rest) (seg # segs) =
     (call_trace lib g k message seg
      \<and> session_trace lib (if g = 0 then img_height message else g)
           (k + of_nat (count_list seg Sws_Scale)) rest segs)"

text \<open>
  The time base \<open>configure\<close> sets has a positive numerator and denominator.  A publisher
  whose guard is set has the time base that \<open>configure\<close> sets.
\<close>

definition time_base_set :: "'e H265Publisher \<Rightarrow> bool" where
  "time_base_set s =
     (height (codec_ctx s) = 0 \<or> time_base (codec_ctx s) = \<lparr> num = 1, den = 30 \<rparr>)"

definition positive_time_base :: "AVCodecContext \<Rightarrow> bool" where
  "positive_time_base c = (0 < num (time_base c) \<and> 0 < den (time_base c))"

section \<open>A scripted encoder and sample memories\<close>

text \<open>
  An instance of libav to run the model on: the encoder answers from a script.  The pixel
  format descriptor is the number of bits per pixel.
\<close>

record script =
  open_result :: int
  send_results :: "int list"
  packets :: "(int \<times> heap) list"

definition scripted :: "(script, int) libav" where
  "scripted = \<lparr>
     layout = lavc_lp64,
     av_pix_fmt_desc_get = (\<lambda>f. if f = AV_PIX_FMT_RGB24 then Some 24 else None),
     av_get_bits_per_pixel = (\<lambda>d. d),
     avcodec_open2 = (\<lambda>e c. (open_result e, e)),
     av_packet_alloc = (\<lambda>e h. (0x1000, h, e)),
     avcodec_send_frame = (\<lambda>e c f.
        case send_results e of [] \<Rightarrow> (0, e) | r # rs \<Rightarrow> (r, e\<lparr> send_results := rs \<rparr>)),
     avcodec_receive_packet = (\<lambda>e c h p.
        case packets e of [] \<Rightarrow> (- 11, h, e) | (r, h') # ps \<Rightarrow> (r, h', e\<lparr> packets := ps \<rparr>)),
     av_packet_unref = (\<lambda>e h p. (h, e)) \<rparr>"

text \<open>
  \<open>quiet\<close> opens, takes every frame at once and has no packet to give (\<open>AVERROR(EAGAIN)\<close>,
  \<open>-11\<close>, on every request).  \<open>refusing\<close> does not open (\<open>AVERROR(EINVAL)\<close>, \<open>-22\<close>).
  \<open>one_packet\<close> opens, answers the first submission with \<open>AVERROR(EAGAIN)\<close> and returns
  one packet, \<open>packet_plain\<close> below.
\<close>

definition quiet :: script where
  "quiet = \<lparr> open_result = 0, send_results = [], packets = [] \<rparr>"

definition refusing :: script where
  "refusing = \<lparr> open_result = - 22, send_results = [], packets = [] \<rparr>"

text \<open>A memory given by its mapped regions (base address and contents); the rest reads 0.\<close>

fun heap_of :: "(addr \<times> byte list) list \<Rightarrow> heap" where
  "heap_of [] a = 0"
| "heap_of ((b, bs) # rs) a =
     (if unat (a - b) < length bs then bs ! unat (a - b) else heap_of rs a)"

definition blank :: heap where
  "blank = (\<lambda>a. 0)"

definition image :: "32 word \<Rightarrow> 32 word \<Rightarrow> Image" where
  "image w h = \<lparr> header = \<lparr> stamp_sec = 0, stamp_nanosec = 0, frame_id = ''camera'' \<rparr>,
     img_height = h, img_width = w, img_data = [] \<rparr>"

text \<open>
  A packet at address 0x1000 as an encoder returns it: its buffer reference at 0x2000, ten
  bytes of payload at 0x3000 (\<open>data\<close> points to the buffer), \<open>pts = 0\<close>, \<open>dts = 0\<close>, the
  key-frame flag, no side data, \<open>pos = -1\<close>.
\<close>

definition plain_struct :: "byte list" where
  "plain_struct =
     [0x00, 0x20, 0, 0, 0, 0, 0, 0,   0, 0, 0, 0, 0, 0, 0, 0,
      0, 0, 0, 0, 0, 0, 0, 0,         0x00, 0x30, 0, 0, 0, 0, 0, 0,
      10, 0, 0, 0,   0, 0, 0, 0,   1, 0, 0, 0,   0, 0, 0, 0,
      0, 0, 0, 0, 0, 0, 0, 0,   0, 0, 0, 0,   0, 0, 0, 0,
      0, 0, 0, 0, 0, 0, 0, 0,
      0xFF, 0xFF, 0xFF, 0xFF, 0xFF, 0xFF, 0xFF, 0xFF]"

definition buffer_ref :: "byte list" where
  "buffer_ref = [0x00, 0x28, 0, 0, 0, 0, 0, 0,   0x00, 0x30, 0, 0, 0, 0, 0, 0,   10, 0, 0, 0]"

definition buffer_bytes :: "byte list" where
  "buffer_bytes = [0xA0, 0xA1, 0xA2, 0xA3, 0xA4, 0xA5, 0xA6, 0xA7, 0xA8, 0xA9]"

definition packet_plain :: heap where
  "packet_plain = heap_of [(0x1000, plain_struct), (0x2000, buffer_ref), (0x3000, buffer_bytes)]"

text \<open>A memory whose eight bytes at 0x1000 are the timestamp \<open>AV_NOPTS_VALUE\<close>.\<close>

definition unset_stamp :: heap where
  "unset_stamp = heap_of [(0x1000, [0, 0, 0, 0, 0, 0, 0, 0x80])]"

definition one_packet :: script where
  "one_packet = \<lparr> open_result = 0, send_results = [- 11], packets = [(0, packet_plain)] \<rparr>"

text \<open>
  The same packet with three side-data entries at 0x4000, of sizes 4, 16 and 0 and types 1, 2
  and 3; the bytes of the first two are at 0x5000 and 0x5100.
\<close>

definition side_struct :: "byte list" where
  "side_struct =
     [0x00, 0x20, 0, 0, 0, 0, 0, 0,   0, 0, 0, 0, 0, 0, 0, 0,
      0, 0, 0, 0, 0, 0, 0, 0,         0x00, 0x30, 0, 0, 0, 0, 0, 0,
      10, 0, 0, 0,   0, 0, 0, 0,   1, 0, 0, 0,   0, 0, 0, 0,
      0x00, 0x40, 0, 0, 0, 0, 0, 0,   3, 0, 0, 0,   0, 0, 0, 0,
      0, 0, 0, 0, 0, 0, 0, 0,
      0xFF, 0xFF, 0xFF, 0xFF, 0xFF, 0xFF, 0xFF, 0xFF]"

definition side_entries :: "byte list" where
  "side_entries =
     [0x00, 0x50, 0, 0, 0, 0, 0, 0,   4, 0, 0, 0,    1, 0, 0, 0,
      0x00, 0x51, 0, 0, 0, 0, 0, 0,   16, 0, 0, 0,   2, 0, 0, 0,
      0, 0, 0, 0, 0, 0, 0, 0,         0, 0, 0, 0,    3, 0, 0, 0]"

definition side_bytes_0 :: "byte list" where
  "side_bytes_0 = [0xDE, 0xAD, 0xBE, 0xEF]"

definition side_bytes_1 :: "byte list" where
  "side_bytes_1 = [0x10, 0x11, 0x12, 0x13, 0x14, 0x15, 0x16, 0x17,
                   0x18, 0x19, 0x1A, 0x1B, 0x1C, 0x1D, 0x1E, 0x1F]"

definition packet_side_data :: heap where
  "packet_side_data = heap_of
     [(0x1000, side_struct), (0x2000, buffer_ref), (0x3000, buffer_bytes),
      (0x4000, side_entries), (0x5000, side_bytes_0), (0x5100, side_bytes_1)]"

section \<open>The serialiser as one stream of bytes\<close>

text \<open>
  The copies are made one behind the other from index 0, so the serialiser writes one stream
  of bytes into a vector of \<open>size_data\<close> elements: \<open>wr n s\<close> is the writer after the bytes
  \<open>s\<close> went into a vector of \<open>n\<close> elements.
\<close>

definition wr :: "nat \<Rightarrow> byte list \<Rightarrow> writer" where
  "wr n s = \<lparr> vec = take n (s @ replicate (n - length s) 0), past_end = drop n s,
      index_data_compressed = length s \<rparr>"

definition entry_stream :: "av_layout \<Rightarrow> heap \<Rightarrow> addr \<Rightarrow> nat \<Rightarrow> byte list" where
  "entry_stream L h p i =
     (let e = side_data_at L h p i in
      load_bytes h (member e (sd_size L)) 4 @ load_bytes h (member e (sd_type L)) 4
        @ load_bytes h (member e (sd_data L)) (nat (sint (load_i32 h (member e (sd_size L))))))"

definition stream :: "av_layout \<Rightarrow> heap \<Rightarrow> addr \<Rightarrow> byte list" where
  "stream L h p =
     (let buf = load_ptr h (member p (pkt_buf L)) in
      load_bytes h (member buf (buf_size L)) 4
      @ load_bytes h (load_ptr h (member buf (buf_data L)))
          (nat (sint (load_i32 h (member buf (buf_size L)))))
      @ load_bytes h (member p (pkt_size L)) 4
      @ load_bytes h (member p (pkt_data L)) (nat (sint (load_i32 h (member p (pkt_size L)))))
      @ load_bytes h (member p (pkt_pts L)) 8
      @ load_bytes h (member p (pkt_dts L)) 8
      @ load_bytes h (member p (pkt_stream_index L)) 4
      @ load_bytes h (member p (pkt_flags L)) 4
      @ load_bytes h (member p (pkt_side_data_elems L)) 4
      @ concat (map (entry_stream L h p) (side_data_indices L h p))
      @ load_bytes h (member p (pkt_duration L)) 8
      @ load_bytes h (member p (pkt_pos L)) 8)"

text \<open>The packets on which no copy faults: a buffer reference, a vector of one byte or more
  and no negative size.\<close>

definition sizes_ok :: "av_layout \<Rightarrow> heap \<Rightarrow> addr \<Rightarrow> bool" where
  "sizes_ok L h p =
     (let buf = load_ptr h (member p (pkt_buf L)) in
      buf \<noteq> 0 \<and> 0 < sint (size_data L h p)
      \<and> 0 \<le> sint (load_i32 h (member buf (buf_size L)))
      \<and> 0 \<le> sint (load_i32 h (member p (pkt_size L)))
      \<and> list_all (\<lambda>i. 0 \<le> sint (load_i32 h (member (side_data_at L h p i) (sd_size L))))
           (side_data_indices L h p))"

section \<open>Lemmas: memory\<close>

lemma length_load_bytes [simp]: "length (load_bytes h a n) = n"
  by (simp add: load_bytes_def)

lemma unat_shift: "unat x + i < 2 ^ 64 \<Longrightarrow> unat ((x::64 word) + of_nat i) = unat x + i"
proof -
  assume a: "unat x + i < 2 ^ 64"
  then have i: "unat (of_nat i :: 64 word) = i" by (simp add: unat_of_nat)
  with a have "unat x + unat (of_nat i :: 64 word) < 2 ^ LENGTH(64)" by simp
  then have "unat (x + of_nat i) = unat x + unat (of_nat i :: 64 word)"
    by (simp only: unat_add_lem)
  with i show ?thesis by simp
qed

text \<open>Reading a mapped region of a memory given by \<open>heap_of\<close>.\<close>

lemma load_bytes_hit:
  assumes "unat (a - b) + n \<le> length bs" "length bs < 2 ^ 64"
  shows "load_bytes (heap_of ((b, bs) # rs)) a n = take n (drop (unat (a - b)) bs)"
proof (rule nth_equalityI)
  show "length (load_bytes (heap_of ((b, bs) # rs)) a n) = length (take n (drop (unat (a - b)) bs))"
    using assms by simp
next
  fix i assume "i < length (load_bytes (heap_of ((b, bs) # rs)) a n)"
  then have i: "i < n" by simp
  have e: "a + of_nat i - b = (a - b) + of_nat i" by simp
  have u: "unat ((a - b) + of_nat i) = unat (a - b) + i"
    using assms i by (intro unat_shift) simp
  have uu: "unat (a + of_nat i - b) = unat (a - b) + i"
    using u by (simp only: e)
  show "load_bytes (heap_of ((b, bs) # rs)) a n ! i = take n (drop (unat (a - b)) bs) ! i"
    using assms i by (simp add: load_bytes_def uu)
qed

lemma load_bytes_miss:
  assumes "length bs \<le> unat (a - b)" "unat (a - b) + n \<le> 2 ^ 64"
  shows "load_bytes (heap_of ((b, bs) # rs)) a n = load_bytes (heap_of rs) a n"
proof -
  have "heap_of ((b, bs) # rs) (a + of_nat i) = heap_of rs (a + of_nat i)" if "i < n" for i
  proof -
    have e: "a + of_nat i - b = (a - b) + of_nat i" by simp
    have u: "unat ((a - b) + of_nat i) = unat (a - b) + i"
      using assms that by (intro unat_shift) simp
    have uu: "unat (a + of_nat i - b) = unat (a - b) + i"
      using u by (simp only: e)
    show ?thesis using assms unfolding heap_of.simps uu by simp
  qed
  then show ?thesis by (simp add: load_bytes_def)
qed

lemma load_bytes_nowhere: "load_bytes (heap_of []) a n = replicate n 0"
  by (simp add: load_bytes_def map_replicate_const)

lemma load_bytes_0: "load_bytes h a 0 = []"
  by (simp add: load_bytes_def)

lemma length_fixtures:
  "length plain_struct = 80" "length buffer_ref = 20" "length buffer_bytes = 10"
  "length side_struct = 80" "length side_entries = 48" "length side_bytes_0 = 4"
  "length side_bytes_1 = 16"
  by (simp_all add: plain_struct_def buffer_ref_def buffer_bytes_def side_struct_def
      side_entries_def side_bytes_0_def side_bytes_1_def)

lemmas eval_load = load_bytes_hit load_bytes_miss load_bytes_nowhere load_bytes_0 length_fixtures
  load_i32_def load_i64_def load_ptr_def member_def lavc_lp64_def side_data_at_def
  side_data_indices_def

lemmas fixture_bytes = plain_struct_def buffer_ref_def buffer_bytes_def side_struct_def
  side_entries_def side_bytes_0_def side_bytes_1_def

text \<open>Storing back what was loaded, and rescaling between equal time bases.\<close>

lemma le_val_bound: "le_val bs < 256 ^ length bs"
proof (induction bs)
  case Nil
  then show ?case by simp
next
  case (Cons b bs)
  have "unat b < 256" using unsigned_less [of b] by simp
  with Cons show ?case by simp
qed

lemma le_bytes_le_val: "le_bytes (length bs) (le_val bs) = bs"
proof (induction bs)
  case Nil
  then show ?case by simp
next
  case (Cons b bs)
  have b: "unat b < 256" using unsigned_less [of b] by simp
  then have "(unat b + 256 * le_val bs) mod 256 = unat b" by simp
  moreover have "(unat b + 256 * le_val bs) div 256 = le_val bs" using b by simp
  ultimately show ?case using Cons by simp
qed

lemma store_load_bytes:
  assumes "n \<le> 2 ^ 64"
  shows "store_bytes h a (load_bytes h a n) = h"
proof
  fix x
  have "load_bytes h a n ! unat (x - a) = h x" if "unat (x - a) < n"
    using that by (simp add: load_bytes_def)
  then show "store_bytes h a (load_bytes h a n) x = h x"
    by (simp add: store_bytes_def)
qed

lemma store_load_i64: "store_i64 h a (load_i64 h a) = h"
proof -
  have "le_val (load_bytes h a 8) < 2 ^ 64"
    using le_val_bound [of "load_bytes h a 8"] by simp
  then have "unat (of_nat (le_val (load_bytes h a 8)) :: 64 word) = le_val (load_bytes h a 8)"
    by (simp add: unat_of_nat)
  moreover have "le_bytes 8 (le_val (load_bytes h a 8)) = load_bytes h a 8"
    using le_bytes_le_val [of "load_bytes h a 8"] by simp
  ultimately show ?thesis
    by (simp add: store_i64_def load_i64_def store_load_bytes)
qed

lemma round_near_inf_multiple:
  assumes "0 < c"
  shows "round_near_inf (a * c) c = a"
proof -
  have e: "2 * \<bar>a * c\<bar> + c = c + (2 * c) * \<bar>a\<bar>"
    using assms by (simp add: abs_mult)
  have "(c + (2 * c) * \<bar>a\<bar>) div (2 * c) = \<bar>a\<bar> + c div (2 * c)"
    using assms by (subst div_mult_self2) simp_all
  moreover have "c div (2 * c) = 0"
    using assms by (intro div_pos_pos_trivial) simp_all
  ultimately have "(2 * \<bar>a * c\<bar> + c) div (2 * c) = \<bar>a\<bar>"
    by (simp only: e)
  moreover have "sgn (a * c) = sgn a"
    using assms by (simp add: sgn_mult)
  moreover have "sgn a * \<bar>a\<bar> = a"
    by (simp add: mult_sgn_abs)
  ultimately show ?thesis
    by (simp add: round_near_inf_def)
qed

lemma av_rescale_q_same:
  assumes "0 < num q" "0 < den q"
  shows "av_rescale_q a q q = a"
proof -
  have c: "0 < num q * den q" using assms by simp
  have "- (2 ^ 63) \<le> sint a" "sint a < 2 ^ 63"
    using sint_ge [of a] sint_lt [of a] by simp_all
  then show ?thesis
    using c by (simp add: av_rescale_q_def Let_def round_near_inf_multiple)
qed

lemma rescale_timestamps_same:
  assumes "0 < num (time_base c)" "0 < den (time_base c)"
  shows "rescale_timestamps L c h p = h"
  using assms by (simp add: rescale_timestamps_def rescale_member_def av_rescale_q_same store_load_i64)

section \<open>Lemmas: the serialiser\<close>

lemma resize_wr: "0 \<le> n \<Longrightarrow> resize n = Inr (wr (nat n) [])"
  by (simp add: resize_def wr_def)

lemma vec_wr_storage: "0 < n \<Longrightarrow> vec (wr n s) \<noteq> []"
proof -
  assume "0 < n"
  then have "length (vec (wr n s)) = n" by (simp add: wr_def)
  with \<open>0 < n\<close> show ?thesis by auto
qed

lemma memcpy_storage:
  assumes "0 \<le> k" and "vec w \<noteq> []"
  shows "memcpy h src k w =
     Inr \<lparr> vec = take (length (vec w)) (take (index_data_compressed w) (vec w)
                @ load_bytes h src (nat k)
                @ drop (index_data_compressed w + nat k) (vec w)),
           past_end = past_end w
                @ drop (length (vec w) - index_data_compressed w) (load_bytes h src (nat k)),
           index_data_compressed = index_data_compressed w + nat k \<rparr>"
  using assms by (simp add: memcpy_def Let_def)

lemma memcpy_wr:
  assumes "0 \<le> k" and "0 < n"
  shows "memcpy h src k (wr n s) = Inr (wr n (s @ load_bytes h src (nat k)))"
proof (cases "length s \<le> n")
  case True
  then show ?thesis
    unfolding memcpy_storage [OF assms(1) vec_wr_storage [OF assms(2)]]
    by (simp add: wr_def)
next
  case False
  then show ?thesis
    unfolding memcpy_storage [OF assms(1) vec_wr_storage [OF assms(2)]]
    by (simp add: wr_def)
qed

lemma and_then_Inr [simp]: "and_then (Inr x) f = f x"
  by (simp add: and_then_def)

lemma copy_side_data_wr:
  "list_all (\<lambda>i. 0 \<le> sint (load_i32 h (member (side_data_at L h p i) (sd_size L)))) is \<Longrightarrow>
   0 < n \<Longrightarrow>
   copy_side_data L h p is (wr n s) = Inr (wr n (s @ concat (map (entry_stream L h p) is)))"
proof (induction "is" arbitrary: s)
  case Nil
  then show ?case by simp
next
  case (Cons i "is")
  then show ?case
    by (simp add: memcpy_wr entry_stream_def Let_def)
qed

lemma serialize_wr:
  assumes "sizes_ok L h p"
  shows "serialize L h p = Inr (wr (nat (sint (size_data L h p))) (stream L h p))"
  using assms
  by (simp add: serialize_def sizes_ok_def Let_def resize_wr memcpy_wr copy_side_data_wr stream_def)

lemma size_data_plain: "sint (size_data lavc_lp64 packet_plain 0x1000) = 68"
  by (simp add: size_data_def eval_load packet_plain_def fixture_bytes)

lemma sizes_ok_plain: "sizes_ok lavc_lp64 packet_plain 0x1000"
  by (simp add: sizes_ok_def size_data_def eval_load packet_plain_def fixture_bytes)

lemma stream_plain:
  "stream lavc_lp64 packet_plain 0x1000 =
     [10, 0, 0, 0] @ [0xA0, 0xA1, 0xA2, 0xA3, 0xA4, 0xA5, 0xA6, 0xA7, 0xA8, 0xA9]
     @ [10, 0, 0, 0] @ [0x00, 0x30, 0, 0, 0, 0, 0, 0, 10, 0]
     @ [0, 0, 0, 0, 0, 0, 0, 0] @ [0, 0, 0, 0, 0, 0, 0, 0]
     @ [0, 0, 0, 0] @ [1, 0, 0, 0] @ [0, 0, 0, 0]
     @ [0, 0, 0, 0, 0, 0, 0, 0] @ [0xFF, 0xFF, 0xFF, 0xFF, 0xFF, 0xFF, 0xFF, 0xFF]"
  by (simp add: stream_def eval_load packet_plain_def fixture_bytes)

lemma serialize_plain:
  "serialize lavc_lp64 packet_plain 0x1000 = Inr (wr 68 (stream lavc_lp64 packet_plain 0x1000))"
  by (simp add: serialize_wr [OF sizes_ok_plain] size_data_plain)

lemma size_data_side: "sint (size_data lavc_lp64 packet_side_data 0x1000) = 115"
  by (simp add: size_data_def eval_load packet_side_data_def fixture_bytes upt_rec)

lemma sizes_ok_side: "sizes_ok lavc_lp64 packet_side_data 0x1000"
  by (simp add: sizes_ok_def size_data_def eval_load packet_side_data_def fixture_bytes upt_rec)

lemma stream_side:
  "stream lavc_lp64 packet_side_data 0x1000 =
     [10, 0, 0, 0] @ [0xA0, 0xA1, 0xA2, 0xA3, 0xA4, 0xA5, 0xA6, 0xA7, 0xA8, 0xA9]
     @ [10, 0, 0, 0] @ [0x00, 0x30, 0, 0, 0, 0, 0, 0, 10, 0]
     @ [0, 0, 0, 0, 0, 0, 0, 0] @ [0, 0, 0, 0, 0, 0, 0, 0]
     @ [0, 0, 0, 0] @ [1, 0, 0, 0] @ [3, 0, 0, 0]
     @ ([4, 0, 0, 0] @ [1, 0, 0, 0] @ [0x00, 0x50, 0, 0])
     @ ([16, 0, 0, 0] @ [2, 0, 0, 0]
        @ [0x00, 0x51, 0, 0, 0, 0, 0, 0, 16, 0, 0, 0, 2, 0, 0, 0])
     @ ([0, 0, 0, 0] @ [3, 0, 0, 0] @ [])
     @ [0, 0, 0, 0, 0, 0, 0, 0] @ [0xFF, 0xFF, 0xFF, 0xFF, 0xFF, 0xFF, 0xFF, 0xFF]"
  by (simp add: stream_def entry_stream_def eval_load packet_side_data_def fixture_bytes upt_rec)

section \<open>Lemmas: the two loops\<close>

lemma retry_loop_last: "retry_loop f [Send_Frame f 0]"
  by (simp add: retry_loop_def)

lemma retry_loop_Cons:
  "ret \<noteq> 0 \<Longrightarrow> retry_loop f sends \<Longrightarrow> retry_loop f (Send_Frame f ret # sends)"
  by (simp add: retry_loop_def retried_def)

lemma send_loop_spec:
  assumes "send_loop lib f s = Some r"
  shows "\<exists>sends e i. retry_loop f sends
    \<and> final r = s\<lparr> trace := trace s @ sends, encoder := e, frameIdx := i \<rparr>"
  using assms
proof (induction lib f s r rule: send_loop.raw_induct [rotated 1, consumes 1])
  case (1 send_loop lib f s r)
  obtain ret e where sent: "avcodec_send_frame lib (encoder s) (codec_ctx s) f = (ret, e)"
    by (cases "avcodec_send_frame lib (encoder s) (codec_ctx s) f")
  let ?s' = "log (Send_Frame f ret) (s\<lparr> encoder := e \<rparr>)"
  show ?case
  proof (cases "ret = 0")
    case True
    with 1(2) sent have "r = Crashed Div_By_Zero ?s' \<or> r = Returned
        (?s'\<lparr> frameIdx := c_mod (frameIdx ?s') (num (framerate (codec_ctx ?s'))) + 1 \<rparr>)"
      by (auto simp: Let_def split: if_splits)
    then have "\<exists>i. final r = s\<lparr> trace := trace s @ [Send_Frame f 0], encoder := e,
        frameIdx := i \<rparr>"
    proof
      assume "r = Crashed Div_By_Zero ?s'"
      then have "final r = s\<lparr> trace := trace s @ [Send_Frame f 0], encoder := e,
          frameIdx := frameIdx s \<rparr>"
        using True by (simp add: log_def)
      then show ?thesis ..
    next
      assume "r = Returned
        (?s'\<lparr> frameIdx := c_mod (frameIdx ?s') (num (framerate (codec_ctx ?s'))) + 1 \<rparr>)"
      then have "final r = s\<lparr> trace := trace s @ [Send_Frame f 0], encoder := e,
          frameIdx := c_mod (frameIdx s) (num (framerate (codec_ctx s))) + 1 \<rparr>"
        using True by (simp add: log_def)
      then show ?thesis ..
    qed
    then show ?thesis using retry_loop_last by blast
  next
    case False
    with 1(2) sent have "send_loop lib f ?s' = Some r"
      by (simp add: Let_def)
    from 1(1) [OF this] obtain sends e' i where
      l: "retry_loop f sends"
      and f: "final r = ?s'\<lparr> trace := trace ?s' @ sends, encoder := e', frameIdx := i \<rparr>"
      by (elim exE conjE) (rule that)
    from f have "final r = s\<lparr> trace := trace s @ Send_Frame f ret # sends, encoder := e',
        frameIdx := i \<rparr>"
      by (simp add: log_def)
    moreover have "retry_loop f (Send_Frame f ret # sends)"
      using False l by (rule retry_loop_Cons)
    ultimately show ?thesis by blast
  qed
qed

lemma drain_loop_spec:
  assumes "drain_loop lib m p s = Some r"
  shows "\<exists>dr e h. list_all is_drain dr
    \<and> final r = s\<lparr> trace := trace s @ dr, encoder := e, mem := h \<rparr>
    \<and> (\<forall>s'. r = Returned s' \<longrightarrow> positive_time_base (codec_ctx s)
           \<longrightarrow> drained (layout lib) m p dr)"
  using assms
proof (induction lib m p s r rule: drain_loop.raw_induct [rotated 1, consumes 1])
  case (1 drain_loop lib m p s r)
  obtain ret h e where
    got: "avcodec_receive_packet lib (encoder s) (codec_ctx s) (mem s) p = (ret, h, e)"
    by (cases "avcodec_receive_packet lib (encoder s) (codec_ctx s) (mem s) p")
  let ?s1 = "log (Receive_Packet ret h) (s\<lparr> encoder := e, mem := h \<rparr>)"
  let ?s2 = "?s1\<lparr> mem := rescale_timestamps (layout lib) (codec_ctx ?s1) (mem ?s1) p \<rparr>"
  show ?case
  proof (cases "0 \<le> ret")
    case False
    with 1(2) got have r: "r = Returned ?s1"
      by (simp add: Let_def)
    have "list_all is_drain [Receive_Packet ret h]"
      by simp
    moreover have "final r = s\<lparr> trace := trace s @ [Receive_Packet ret h], encoder := e,
        mem := h \<rparr>"
      by (simp add: r log_def)
    moreover have "drained (layout lib) m p [Receive_Packet ret h]"
      using False by simp
    ultimately show ?thesis by blast
  next
    case True
    show ?thesis
    proof (cases "serialize (layout lib) (mem ?s2) p")
      case (Inl flt)
      with 1(2) got True have r: "r = Crashed flt ?s2"
        by (simp add: Let_def)
      have "list_all is_drain [Receive_Packet ret h]"
        by simp
      moreover have "final r = s\<lparr> trace := trace s @ [Receive_Packet ret h], encoder := e,
          mem := mem ?s2 \<rparr>"
        by (simp add: r log_def)
      moreover have "\<forall>s'. r \<noteq> Returned s'"
        by (simp add: r)
      ultimately show ?thesis by blast
    next
      case (Inr w)
      let ?c = "\<lparr> c_header = header m, c_format = ''h265'', c_data = vec w \<rparr>"
      let ?s3 = "log (Publish ?c) ?s2"
      from 1(2) got True Inr have "drain_loop lib m p ?s3 = Some r"
        by (simp add: Let_def)
      from 1(1) [OF this] obtain dr e' h' where
        d: "list_all is_drain dr"
        and f: "final r = ?s3\<lparr> trace := trace ?s3 @ dr, encoder := e', mem := h' \<rparr>"
        and sh: "\<forall>s'. r = Returned s' \<longrightarrow> positive_time_base (codec_ctx ?s3)
                \<longrightarrow> drained (layout lib) m p dr"
        by (elim exE conjE) (rule that)
      let ?dr = "Receive_Packet ret h # Publish ?c # dr"
      have "list_all is_drain ?dr"
        using d by simp
      moreover from f have "final r = s\<lparr> trace := trace s @ ?dr, encoder := e', mem := h' \<rparr>"
        by (simp add: log_def)
      moreover have "drained (layout lib) m p ?dr"
        if "r = Returned s'" "positive_time_base (codec_ctx s)" for s'
      proof -
        have "mem ?s2 = h"
          using that(2) by (simp add: log_def positive_time_base_def rescale_timestamps_same)
        with Inr have "envelope (layout lib) m h p = Some ?c"
          by (simp add: envelope_def)
        moreover have "drained (layout lib) m p dr"
          using sh that by (simp add: log_def)
        ultimately show ?thesis using True by simp
      qed
      ultimately show ?thesis by blast
    qed
  qed
qed

section \<open>Lemmas: one call\<close>

lemma not_configuration_drain: "list_all is_drain dr \<Longrightarrow> list_all (\<lambda>ev. \<not> is_configuration ev) dr"
proof (induction dr)
  case Nil
  then show ?case by simp
next
  case (Cons ev dr)
  then show ?case by (cases ev) simp_all
qed

lemma retried_not_configuration: "retried f ev \<Longrightarrow> \<not> is_configuration ev"
  by (cases ev) (simp_all add: retried_def)

lemma not_configuration_retry:
  assumes "retry_loop f sends"
  shows "list_all (\<lambda>ev. \<not> is_configuration ev) sends"
proof -
  from assms have "sends = butlast sends @ [Send_Frame f 0]"
    by (metis append_butlast_last_id retry_loop_def)
  moreover have "list_all (\<lambda>ev. \<not> is_configuration ev) (butlast sends)"
    using assms retried_not_configuration by (auto simp: retry_loop_def list_all_iff)
  moreover have "list_all (\<lambda>ev. \<not> is_configuration ev) [Send_Frame f 0]"
    by simp
  ultimately show ?thesis
    by (metis list_all_append)
qed

lemma encode_spec:
  assumes "encode lib m s = Some r"
  shows "\<exists>evs fo fc e h i.
     final r = s\<lparr> trace := trace s @ evs, avOutFrame := fo, frameCount := fc, encoder := e,
                   mem := h, frameIdx := i \<rparr>
     \<and> list_all (\<lambda>ev. \<not> is_configuration ev) evs
     \<and> (\<forall>s'. r = Returned s' \<longrightarrow>
          (\<exists>outF p sends dr. avInFrame s \<noteq> None \<and> avOutFrame s = Some outF
             \<and> evs = [Image_Copy, Sws_Scale, Packet_Alloc p] @ sends @ dr @ [Packet_Unref, Unlock]
             \<and> submissions (outF\<lparr> pts := frameCount s \<rparr>) sends
             \<and> list_all is_drain dr
             \<and> (positive_time_base (codec_ctx s) \<longrightarrow> drained (layout lib) m p dr)
             \<and> fo = Some (outF\<lparr> pts := frameCount s \<rparr>) \<and> fc = frameCount s + 1))"
proof (cases "avInFrame s")
  case None
  with assms have r: "r = Crashed Null_Deref s"
    by (simp add: encode_def)
  have "final r = s\<lparr> trace := trace s @ [], avOutFrame := avOutFrame s, frameCount := frameCount s,
      encoder := encoder s, mem := mem s, frameIdx := frameIdx s \<rparr>"
    by (simp add: r)
  moreover have "\<forall>s'. r \<noteq> Returned s'" by (simp add: r)
  moreover have "list_all (\<lambda>ev. \<not> is_configuration ev) []" by simp
  ultimately show ?thesis by blast
next
  case inF: (Some inF)
  show ?thesis
  proof (cases "avOutFrame s")
    case None
    with assms inF have r: "r = Crashed Null_Deref (log Image_Copy s)"
      by (simp add: encode_def Let_def log_def)
    have "final r = s\<lparr> trace := trace s @ [Image_Copy], avOutFrame := avOutFrame s,
        frameCount := frameCount s, encoder := encoder s, mem := mem s, frameIdx := frameIdx s \<rparr>"
      by (simp add: r log_def)
    moreover have "\<forall>s'. r \<noteq> Returned s'" by (simp add: r)
    moreover have "list_all (\<lambda>ev. \<not> is_configuration ev) [Image_Copy]" by simp
    ultimately show ?thesis by blast
  next
    case outF: (Some outF)
    let ?f = "outF\<lparr> pts := frameCount s \<rparr>"
    let ?s2 = "(log Sws_Scale (log Image_Copy s))
        \<lparr> avOutFrame := Some ?f, frameCount := frameCount s + 1 \<rparr>"
    obtain p h0 e0 where al: "av_packet_alloc lib (encoder ?s2) (mem ?s2) = (p, h0, e0)"
      by (cases "av_packet_alloc lib (encoder ?s2) (mem ?s2)")
    let ?s3 = "log (Packet_Alloc p) (?s2\<lparr> encoder := e0, mem := h0 \<rparr>)"
    show ?thesis
    proof (cases "p = 0")
      case True
      with assms inF outF al have r: "r = Crashed Null_Deref ?s3"
        by (simp add: encode_def Let_def log_def)
      have "final r = s\<lparr> trace := trace s @ [Image_Copy, Sws_Scale, Packet_Alloc p],
          avOutFrame := Some ?f, frameCount := frameCount s + 1, encoder := e0, mem := h0,
          frameIdx := frameIdx s \<rparr>"
        by (simp add: r log_def)
      moreover have "\<forall>s'. r \<noteq> Returned s'" by (simp add: r)
      moreover have "list_all (\<lambda>ev. \<not> is_configuration ev) [Image_Copy, Sws_Scale, Packet_Alloc p]"
        by simp
      ultimately show ?thesis by blast
    next
      case False
      let ?s4 = "?s3\<lparr> mem := store_i32 (store_ptr (mem ?s3) (member p (pkt_data (layout lib))) 0)
                             (member p (pkt_size (layout lib))) 0 \<rparr>"
      obtain r0 e1 where snt: "avcodec_send_frame lib (encoder ?s4) (codec_ctx ?s4) ?f = (r0, e1)"
        by (cases "avcodec_send_frame lib (encoder ?s4) (codec_ctx ?s4) ?f")
      let ?s5 = "log (Send_Frame ?f r0) (?s4\<lparr> encoder := e1 \<rparr>)"
      from assms inF outF al False snt obtain r1 where
        sl: "send_loop lib ?f ?s5 = Some r1"
        by (cases "send_loop lib ?f ?s5") (simp_all add: encode_def Let_def log_def)
      from send_loop_spec [OF sl] obtain sends e2 i2 where
        rl: "retry_loop ?f sends"
        and f1: "final r1 = ?s5\<lparr> trace := trace ?s5 @ sends, encoder := e2, frameIdx := i2 \<rparr>"
        by (elim exE conjE) (rule that)
      have sub: "submissions ?f (Send_Frame ?f r0 # sends)"
        using rl by (simp add: submissions_def)
      have nc1: "list_all (\<lambda>ev. \<not> is_configuration ev) sends"
        using rl by (rule not_configuration_retry)
      show ?thesis
      proof (cases r1)
        case (Crashed flt s6)
        with assms inF outF al False snt sl have r: "r = Crashed flt s6"
          by (simp add: encode_def Let_def log_def)
        from f1 Crashed have "final r = s\<lparr> trace := trace s @ [Image_Copy, Sws_Scale, Packet_Alloc p]
            @ Send_Frame ?f r0 # sends,
            avOutFrame := Some ?f, frameCount := frameCount s + 1, encoder := e2,
            mem := mem ?s4, frameIdx := i2 \<rparr>"
          by (simp add: r log_def)
        moreover have "\<forall>s'. r \<noteq> Returned s'" by (simp add: r)
        moreover have "list_all (\<lambda>ev. \<not> is_configuration ev)
            ([Image_Copy, Sws_Scale, Packet_Alloc p] @ Send_Frame ?f r0 # sends)"
          using nc1 by simp
        ultimately show ?thesis by blast
      next
        case (Returned s6)
        from assms inF outF al False snt sl Returned obtain r2 where
          dl: "drain_loop lib m p s6 = Some r2"
          by (cases "drain_loop lib m p s6") (simp_all add: encode_def Let_def log_def)
        from drain_loop_spec [OF dl] obtain dr e3 h3 where
          d: "list_all is_drain dr"
          and f2: "final r2 = s6\<lparr> trace := trace s6 @ dr, encoder := e3, mem := h3 \<rparr>"
          and sh: "\<forall>s'. r2 = Returned s' \<longrightarrow> positive_time_base (codec_ctx s6)
             \<longrightarrow> drained (layout lib) m p dr"
          by (elim exE conjE) (rule that)
        have s6: "s6 = ?s5\<lparr> trace := trace ?s5 @ sends, encoder := e2, frameIdx := i2 \<rparr>"
          using f1 Returned by simp
        have nc2: "list_all (\<lambda>ev. \<not> is_configuration ev) dr"
          using d by (rule not_configuration_drain)
        show ?thesis
        proof (cases r2)
          case (Crashed flt s7)
          with assms inF outF al False snt sl Returned dl have r: "r = Crashed flt s7"
            by (simp add: encode_def Let_def log_def)
          from f2 Crashed s6 have "final r = s\<lparr> trace := trace s
              @ [Image_Copy, Sws_Scale, Packet_Alloc p] @ Send_Frame ?f r0 # sends @ dr,
              avOutFrame := Some ?f, frameCount := frameCount s + 1, encoder := e3,
              mem := h3, frameIdx := i2 \<rparr>"
            by (simp add: r log_def)
          moreover have "\<forall>s'. r \<noteq> Returned s'" by (simp add: r)
          moreover have "list_all (\<lambda>ev. \<not> is_configuration ev)
              ([Image_Copy, Sws_Scale, Packet_Alloc p] @ Send_Frame ?f r0 # sends @ dr)"
            using nc1 nc2 by simp
          ultimately show ?thesis by blast
        next
          case R2: (Returned s7)
          obtain h4 e4 where un: "av_packet_unref lib (encoder s7) (mem s7) p = (h4, e4)"
            by (cases "av_packet_unref lib (encoder s7) (mem s7) p")
          let ?evs = "[Image_Copy, Sws_Scale, Packet_Alloc p] @ (Send_Frame ?f r0 # sends) @ dr
              @ [Packet_Unref, Unlock]"
          from assms inF outF al False snt sl Returned dl R2 un have
            r: "r = Returned (log Unlock (log Packet_Unref (s7\<lparr> encoder := e4, mem := h4 \<rparr>)))"
            by (simp add: encode_def Let_def log_def)
          from f2 R2 s6 have A: "final r = s\<lparr> trace := trace s @ ?evs,
              avOutFrame := Some ?f, frameCount := frameCount s + 1, encoder := e4,
              mem := h4, frameIdx := i2 \<rparr>"
            by (simp add: r log_def)
          have B: "list_all (\<lambda>ev. \<not> is_configuration ev) ?evs"
            using nc1 nc2 by simp
          have dd: "positive_time_base (codec_ctx s) \<longrightarrow> drained (layout lib) m p dr"
            using sh R2 s6 by (simp add: log_def)
          have C: "\<exists>outF' p' sends' dr'. avInFrame s \<noteq> None \<and> avOutFrame s = Some outF'
             \<and> ?evs = [Image_Copy, Sws_Scale, Packet_Alloc p'] @ sends' @ dr' @ [Packet_Unref, Unlock]
             \<and> submissions (outF'\<lparr> pts := frameCount s \<rparr>) sends'
             \<and> list_all is_drain dr'
             \<and> (positive_time_base (codec_ctx s) \<longrightarrow> drained (layout lib) m p' dr')
             \<and> Some ?f = Some (outF'\<lparr> pts := frameCount s \<rparr>)
             \<and> frameCount s + 1 = frameCount s + 1"
            using sub d inF outF dd
            by (intro exI [of _ outF] exI [of _ p] exI [of _ "Send_Frame ?f r0 # sends"]
                exI [of _ dr]) simp
          show ?thesis
            by (intro exI conjI) (rule A, rule B, intro allI impI, rule C)
        qed
      qed
    qed
  qed
qed

lemma allocate_spec:
  "\<exists>inF sws outF. allocate m s = s\<lparr> avInFrame := Some inF, inputLineSizes := Some (AV_PIX_FMT_RGB24, img_width m),
       swsCtx := Some sws, avOutFrame := Some outF,
       trace := trace s @ [Frame_Alloc inF, Sws_Get_Context sws, Frame_Alloc outF] \<rparr>"
  unfolding allocate_def Let_def log_def
  by (intro exI) simp

lemma config_block_spec:
  "\<exists>cfg e. list_all is_configuration cfg
     \<and> (config_block lib m s = Return_Early
           (s\<lparr> codec_ctx := configure m (codec_ctx s), encoder := e, trace := trace s @ cfg \<rparr>)
        \<or> (\<exists>inF sws outF. config_block lib m s = Fall_Through
           (s\<lparr> codec_ctx := configure m (codec_ctx s), encoder := e, trace := trace s @ cfg,
               avInFrame := Some inF, inputLineSizes := Some (AV_PIX_FMT_RGB24, img_width m),
               swsCtx := Some sws, avOutFrame := Some outF \<rparr>)))"
proof (cases "av_pix_fmt_desc_get lib AV_PIX_FMT_RGB24")
  case None
  then have "config_block lib m s = Return_Early
      (s\<lparr> codec_ctx := configure m (codec_ctx s), encoder := encoder s, trace := trace s @ [] \<rparr>)"
    by (simp add: config_block_def)
  moreover have "list_all is_configuration []" by simp
  ultimately show ?thesis by blast
next
  case (Some desc)
  show ?thesis
  proof (cases "c_div (av_get_bits_per_pixel lib desc) 8 = 3
      \<and> \<not> (c_mod (av_get_bits_per_pixel lib desc) 8 \<noteq> 0)")
    case False
    with Some have "config_block lib m s = Return_Early
        (s\<lparr> codec_ctx := configure m (codec_ctx s), encoder := encoder s, trace := trace s @ [] \<rparr>)"
      by (simp add: config_block_def Let_def)
    moreover have "list_all is_configuration []" by simp
    ultimately show ?thesis by blast
  next
    case True
    let ?s1 = "s\<lparr> codec_ctx := configure m (codec_ctx s) \<rparr>"
    obtain r e where op: "avcodec_open2 lib (encoder ?s1) (codec_ctx ?s1) = (r, e)"
      by (cases "avcodec_open2 lib (encoder ?s1) (codec_ctx ?s1)")
    show ?thesis
    proof (cases "r < 0")
      case neg: True
      with Some True op have "config_block lib m s = Return_Early
          (s\<lparr> codec_ctx := configure m (codec_ctx s), encoder := e,
               trace := trace s @ [Codec_Open r] \<rparr>)"
        by (simp add: config_block_def Let_def log_def)
      moreover have "list_all is_configuration [Codec_Open r]" by simp
      ultimately show ?thesis by blast
    next
      case False
      let ?s2 = "log (Codec_Open r) (?s1\<lparr> encoder := e \<rparr>)"
      from allocate_spec [of m ?s2] obtain inF sws outF where
        al: "allocate m ?s2 = ?s2\<lparr> avInFrame := Some inF,
          inputLineSizes := Some (AV_PIX_FMT_RGB24, img_width m),
          swsCtx := Some sws, avOutFrame := Some outF,
          trace := trace ?s2 @ [Frame_Alloc inF, Sws_Get_Context sws, Frame_Alloc outF] \<rparr>"
        by (elim exE)
      let ?cfg = "[Codec_Open r, Frame_Alloc inF, Sws_Get_Context sws, Frame_Alloc outF]"
      from Some True op False al have "config_block lib m s = Fall_Through
           (s\<lparr> codec_ctx := configure m (codec_ctx s), encoder := e, trace := trace s @ ?cfg,
               avInFrame := Some inF, inputLineSizes := Some (AV_PIX_FMT_RGB24, img_width m),
               swsCtx := Some sws, avOutFrame := Some outF \<rparr>)"
        by (simp add: config_block_def Let_def log_def)
      moreover have "list_all is_configuration ?cfg" by simp
      ultimately show ?thesis by blast
    qed
  qed
qed

lemma publish_configured:
  "height (codec_ctx s) \<noteq> 0 \<Longrightarrow> publish lib m s = encode lib m (log Lock s)"
  by (simp add: publish_def Let_def log_def)

lemma publish_keeps_configuration:
  assumes "height (codec_ctx s) \<noteq> 0" and "publish lib m s = Some r"
  shows "codec_ctx (final r) = codec_ctx s \<and> avInFrame (final r) = avInFrame s
    \<and> swsCtx (final r) = swsCtx s \<and> inputLineSizes (final r) = inputLineSizes s
    \<and> (\<exists>evs. trace (final r) = trace s @ evs \<and> list_all (\<lambda>ev. \<not> is_configuration ev) evs)"
proof -
  from assms have "encode lib m (log Lock s) = Some r"
    by (simp add: publish_configured)
  from encode_spec [OF this] obtain evs fo fc e h i where
    f: "final r = (log Lock s)\<lparr> trace := trace (log Lock s) @ evs, avOutFrame := fo,
          frameCount := fc, encoder := e, mem := h, frameIdx := i \<rparr>"
    and n: "list_all (\<lambda>ev. \<not> is_configuration ev) evs"
    by (elim exE conjE) (rule that)
  from f have "trace (final r) = trace s @ Lock # evs"
    by (simp add: log_def)
  moreover have "list_all (\<lambda>ev. \<not> is_configuration ev) (Lock # evs)"
    using n by simp
  moreover from f have "codec_ctx (final r) = codec_ctx s" "avInFrame (final r) = avInFrame s"
    "swsCtx (final r) = swsCtx s" "inputLineSizes (final r) = inputLineSizes s"
    by (simp_all add: log_def)
  ultimately show ?thesis by blast
qed

text \<open>A call that returned, either from the configuration block or after the encoding.\<close>

lemma encode_returned:
  assumes "encode lib m s = Some (Returned s')"
  shows "\<exists>outF p sends dr. avOutFrame s = Some outF
     \<and> trace s' = trace s @ [Image_Copy, Sws_Scale, Packet_Alloc p] @ sends @ dr @ [Packet_Unref, Unlock]
     \<and> submissions (outF\<lparr> pts := frameCount s \<rparr>) sends
     \<and> list_all is_drain dr
     \<and> (positive_time_base (codec_ctx s) \<longrightarrow> drained (layout lib) m p dr)
     \<and> frameCount s' = frameCount s + 1 \<and> codec_ctx s' = codec_ctx s"
proof -
  from encode_spec [OF assms] obtain evs fo fc e h i where
    f: "final (Returned s') = s\<lparr> trace := trace s @ evs, avOutFrame := fo,
          frameCount := fc, encoder := e, mem := h, frameIdx := i \<rparr>"
    and sh: "\<forall>s''. Returned s' = Returned s'' \<longrightarrow>
          (\<exists>outF p sends dr. avInFrame s \<noteq> None \<and> avOutFrame s = Some outF
             \<and> evs = [Image_Copy, Sws_Scale, Packet_Alloc p] @ sends @ dr @ [Packet_Unref, Unlock]
             \<and> submissions (outF\<lparr> pts := frameCount s \<rparr>) sends
             \<and> list_all is_drain dr
             \<and> (positive_time_base (codec_ctx s) \<longrightarrow> drained (layout lib) m p dr)
             \<and> fo = Some (outF\<lparr> pts := frameCount s \<rparr>) \<and> fc = frameCount s + 1)"
    by (elim exE conjE) (rule that)
  from sh obtain outF p sends dr where
    o: "avOutFrame s = Some outF"
    and e: "evs = [Image_Copy, Sws_Scale, Packet_Alloc p] @ sends @ dr @ [Packet_Unref, Unlock]"
    and su: "submissions (outF\<lparr> pts := frameCount s \<rparr>) sends"
    and d: "list_all is_drain dr"
    and dd: "positive_time_base (codec_ctx s) \<longrightarrow> drained (layout lib) m p dr"
    and c: "fc = frameCount s + 1"
    by blast
  from f e have "trace s' = trace s @ [Image_Copy, Sws_Scale, Packet_Alloc p] @ sends @ dr
      @ [Packet_Unref, Unlock]"
    by simp
  moreover from f c have "frameCount s' = frameCount s + 1" "codec_ctx s' = codec_ctx s"
    by simp_all
  ultimately show ?thesis using o su d dd by blast
qed

lemma publish_returned:
  assumes "publish lib m s = Some (Returned s')"
  shows "\<exists>cfg. list_all is_configuration cfg
     \<and> (height (codec_ctx s) \<noteq> 0 \<longrightarrow> cfg = [])
     \<and> codec_ctx s' = (if height (codec_ctx s) = 0 then configure m (codec_ctx s) else codec_ctx s)
     \<and> ((height (codec_ctx s) = 0 \<and> trace s' = trace s @ Lock # cfg @ [Unlock]
           \<and> frameCount s' = frameCount s)
        \<or> (\<exists>outF p sends dr.
             trace s' = trace s @ Lock # cfg @ [Image_Copy, Sws_Scale, Packet_Alloc p] @ sends @ dr
               @ [Packet_Unref, Unlock]
           \<and> submissions (outF\<lparr> pts := frameCount s \<rparr>) sends
           \<and> list_all is_drain dr
           \<and> (positive_time_base (codec_ctx s') \<longrightarrow> drained (layout lib) m p dr)
           \<and> frameCount s' = frameCount s + 1
           \<and> (height (codec_ctx s) \<noteq> 0 \<longrightarrow> avOutFrame s = Some outF)))"
proof (cases "height (codec_ctx s) = 0")
  case False
  with assms have "encode lib m (log Lock s) = Some (Returned s')"
    by (simp add: publish_configured)
  from encode_returned [OF this] obtain outF p sends dr where
    "avOutFrame s = Some outF"
    "trace s' = trace s @ Lock # [] @ [Image_Copy, Sws_Scale, Packet_Alloc p] @ sends @ dr
       @ [Packet_Unref, Unlock]"
    "submissions (outF\<lparr> pts := frameCount s \<rparr>) sends"
    "list_all is_drain dr"
    "positive_time_base (codec_ctx s') \<longrightarrow> drained (layout lib) m p dr"
    "frameCount s' = frameCount s + 1" "codec_ctx s' = codec_ctx s"
    by (auto simp: log_def)
  moreover have "list_all is_configuration []" by simp
  ultimately show ?thesis using False by (intro exI [of _ "[]"]) auto
next
  case True
  let ?s0 = "log Lock s"
  from config_block_spec [of lib m ?s0] obtain cfg e where
    cfg: "list_all is_configuration cfg"
    and alt: "config_block lib m ?s0 = Return_Early
           (?s0\<lparr> codec_ctx := configure m (codec_ctx ?s0), encoder := e, trace := trace ?s0 @ cfg \<rparr>)
        \<or> (\<exists>inF sws outF. config_block lib m ?s0 = Fall_Through
           (?s0\<lparr> codec_ctx := configure m (codec_ctx ?s0), encoder := e, trace := trace ?s0 @ cfg,
               avInFrame := Some inF, inputLineSizes := Some (AV_PIX_FMT_RGB24, img_width m),
               swsCtx := Some sws, avOutFrame := Some outF \<rparr>))"
    by (elim exE conjE) (rule that)
  from alt show ?thesis
  proof
    assume "config_block lib m ?s0 = Return_Early
           (?s0\<lparr> codec_ctx := configure m (codec_ctx ?s0), encoder := e, trace := trace ?s0 @ cfg \<rparr>)"
    with assms True have "s' = log Unlock
           (?s0\<lparr> codec_ctx := configure m (codec_ctx ?s0), encoder := e, trace := trace ?s0 @ cfg \<rparr>)"
      by (simp add: publish_def Let_def log_def)
    then have "trace s' = trace s @ Lock # cfg @ [Unlock]" "frameCount s' = frameCount s"
      "codec_ctx s' = configure m (codec_ctx s)"
      by (simp_all add: log_def)
    then show ?thesis using True cfg by (intro exI [of _ cfg]) simp
  next
    assume "\<exists>inF sws outF. config_block lib m ?s0 = Fall_Through
           (?s0\<lparr> codec_ctx := configure m (codec_ctx ?s0), encoder := e, trace := trace ?s0 @ cfg,
               avInFrame := Some inF, inputLineSizes := Some (AV_PIX_FMT_RGB24, img_width m),
               swsCtx := Some sws, avOutFrame := Some outF \<rparr>)"
    then obtain inF sws outF where cb: "config_block lib m ?s0 = Fall_Through
           (?s0\<lparr> codec_ctx := configure m (codec_ctx ?s0), encoder := e, trace := trace ?s0 @ cfg,
               avInFrame := Some inF, inputLineSizes := Some (AV_PIX_FMT_RGB24, img_width m),
               swsCtx := Some sws, avOutFrame := Some outF \<rparr>)"
      by (elim exE)
    let ?s1 = "?s0\<lparr> codec_ctx := configure m (codec_ctx ?s0), encoder := e, trace := trace ?s0 @ cfg,
               avInFrame := Some inF, inputLineSizes := Some (AV_PIX_FMT_RGB24, img_width m),
               swsCtx := Some sws, avOutFrame := Some outF \<rparr>"
    from assms True cb have "encode lib m ?s1 = Some (Returned s')"
      by (simp add: publish_def Let_def log_def)
    from encode_returned [OF this] obtain outF' p sends dr where
      "trace s' = trace s @ Lock # cfg @ [Image_Copy, Sws_Scale, Packet_Alloc p] @ sends @ dr
         @ [Packet_Unref, Unlock]"
      "submissions (outF'\<lparr> pts := frameCount s \<rparr>) sends"
      "list_all is_drain dr"
      "positive_time_base (codec_ctx s') \<longrightarrow> drained (layout lib) m p dr"
      "frameCount s' = frameCount s + 1" "codec_ctx s' = configure m (codec_ctx s)"
      by (auto simp: log_def)
    then show ?thesis using True cfg by (intro exI [of _ cfg]) auto
  qed
qed

section \<open>Lemmas: running the loops\<close>

lemma send_loop_accept:
  assumes "fst (avcodec_send_frame lib (encoder s) (codec_ctx s) f) = 0"
    and "num (framerate (codec_ctx s)) \<noteq> 0"
  shows "send_loop lib f s = Some (Returned
     ((log (Send_Frame f 0) (s\<lparr> encoder := snd (avcodec_send_frame lib (encoder s) (codec_ctx s) f) \<rparr>))
        \<lparr> frameIdx := c_mod (frameIdx s) (num (framerate (codec_ctx s))) + 1 \<rparr>))"
  using assms
  by (subst send_loop.simps) (simp add: case_prod_unfold Let_def log_def)

lemma send_loop_retry:
  assumes "fst (avcodec_send_frame lib (encoder s) (codec_ctx s) f) \<noteq> 0"
  shows "send_loop lib f s = send_loop lib f
     (log (Send_Frame f (fst (avcodec_send_frame lib (encoder s) (codec_ctx s) f)))
        (s\<lparr> encoder := snd (avcodec_send_frame lib (encoder s) (codec_ctx s) f) \<rparr>))"
  using assms
  by (subst send_loop.simps) (simp add: case_prod_unfold Let_def)

lemma drain_loop_stop:
  assumes "fst (avcodec_receive_packet lib (encoder s) (codec_ctx s) (mem s) p) < 0"
  shows "drain_loop lib m p s = Some (Returned
     (log (Receive_Packet (fst (avcodec_receive_packet lib (encoder s) (codec_ctx s) (mem s) p))
             (fst (snd (avcodec_receive_packet lib (encoder s) (codec_ctx s) (mem s) p))))
        (s\<lparr> encoder := snd (snd (avcodec_receive_packet lib (encoder s) (codec_ctx s) (mem s) p)),
            mem := fst (snd (avcodec_receive_packet lib (encoder s) (codec_ctx s) (mem s) p)) \<rparr>)))"
  using assms
  by (subst drain_loop.simps) (simp add: case_prod_unfold Let_def)

lemma drain_loop_packet:
  assumes "0 \<le> fst (avcodec_receive_packet lib (encoder s) (codec_ctx s) (mem s) p)"
    and "positive_time_base (codec_ctx s)"
    and "serialize (layout lib)
           (fst (snd (avcodec_receive_packet lib (encoder s) (codec_ctx s) (mem s) p))) p = Inr w"
  shows "drain_loop lib m p s = drain_loop lib m p
     (log (Publish \<lparr> c_header = header m, c_format = ''h265'', c_data = vec w \<rparr>)
       (log (Receive_Packet (fst (avcodec_receive_packet lib (encoder s) (codec_ctx s) (mem s) p))
             (fst (snd (avcodec_receive_packet lib (encoder s) (codec_ctx s) (mem s) p))))
        (s\<lparr> encoder := snd (snd (avcodec_receive_packet lib (encoder s) (codec_ctx s) (mem s) p)),
            mem := fst (snd (avcodec_receive_packet lib (encoder s) (codec_ctx s) (mem s) p)) \<rparr>)))"
  using assms
  by (subst drain_loop.simps)
     (simp add: case_prod_unfold Let_def log_def positive_time_base_def rescale_timestamps_same)

lemma send_loop_never:
  assumes "\<And>e c g. fst (avcodec_send_frame lib e c g) \<noteq> 0"
  shows "send_loop lib f s = None"
proof (rule ccontr)
  assume "send_loop lib f s \<noteq> None"
  then obtain r where "send_loop lib f s = Some r" by blast
  then have "\<exists>e c g. fst (avcodec_send_frame lib e c g) = 0"
  proof (induction lib f s r rule: send_loop.raw_induct [rotated 1, consumes 1])
    case (1 send_loop lib f s r)
    show ?case
    proof (cases "fst (avcodec_send_frame lib (encoder s) (codec_ctx s) f) = 0")
      case True
      then show ?thesis by blast
    next
      case False
      with 1(2) have "send_loop lib f (log (Send_Frame f (fst (avcodec_send_frame lib (encoder s) (codec_ctx s) f)))
        (s\<lparr> encoder := snd (avcodec_send_frame lib (encoder s) (codec_ctx s) f) \<rparr>)) = Some r"
        by (simp add: case_prod_unfold Let_def)
      then show ?thesis by (rule 1(1))
    qed
  qed
  with assms show False by blast
qed

lemmas eval_publish = publish_def config_block_def encode_def allocate_def configure_def
  constructed_def default_context_def scripted_def image_def log_def Let_def observe_def
  c_div_def c_mod_def send_loop_accept send_loop_retry drain_loop_stop

section \<open>Lemmas: sessions\<close>

lemma publish_any:
  assumes "publish lib m s = Some r"
  shows "codec_ctx (final r) =
      (if height (codec_ctx s) = 0 then configure m (codec_ctx s) else codec_ctx s)
    \<and> (\<exists>evs. trace (final r) = trace s @ evs)"
proof (cases "height (codec_ctx s) = 0")
  case False
  with assms publish_keeps_configuration [of s lib m r] show ?thesis by auto
next
  case True
  let ?s0 = "log Lock s"
  from config_block_spec [of lib m ?s0] obtain cfg e where
    alt: "config_block lib m ?s0 = Return_Early
           (?s0\<lparr> codec_ctx := configure m (codec_ctx ?s0), encoder := e, trace := trace ?s0 @ cfg \<rparr>)
        \<or> (\<exists>inF sws outF. config_block lib m ?s0 = Fall_Through
           (?s0\<lparr> codec_ctx := configure m (codec_ctx ?s0), encoder := e, trace := trace ?s0 @ cfg,
               avInFrame := Some inF, inputLineSizes := Some (AV_PIX_FMT_RGB24, img_width m),
               swsCtx := Some sws, avOutFrame := Some outF \<rparr>))"
    by (elim exE conjE) (rule that)
  from alt show ?thesis
  proof
    assume "config_block lib m ?s0 = Return_Early
           (?s0\<lparr> codec_ctx := configure m (codec_ctx ?s0), encoder := e, trace := trace ?s0 @ cfg \<rparr>)"
    with assms True have "r = Returned (log Unlock
           (?s0\<lparr> codec_ctx := configure m (codec_ctx ?s0), encoder := e, trace := trace ?s0 @ cfg \<rparr>))"
      by (simp add: publish_def Let_def log_def)
    then have "codec_ctx (final r) = configure m (codec_ctx s)"
      and "trace (final r) = trace s @ (Lock # cfg @ [Unlock])"
      by (simp_all add: log_def)
    then show ?thesis using True by auto
  next
    assume "\<exists>inF sws outF. config_block lib m ?s0 = Fall_Through
           (?s0\<lparr> codec_ctx := configure m (codec_ctx ?s0), encoder := e, trace := trace ?s0 @ cfg,
               avInFrame := Some inF, inputLineSizes := Some (AV_PIX_FMT_RGB24, img_width m),
               swsCtx := Some sws, avOutFrame := Some outF \<rparr>)"
    then obtain inF sws outF where cb: "config_block lib m ?s0 = Fall_Through
           (?s0\<lparr> codec_ctx := configure m (codec_ctx ?s0), encoder := e, trace := trace ?s0 @ cfg,
               avInFrame := Some inF, inputLineSizes := Some (AV_PIX_FMT_RGB24, img_width m),
               swsCtx := Some sws, avOutFrame := Some outF \<rparr>)"
      by (elim exE)
    let ?s1 = "?s0\<lparr> codec_ctx := configure m (codec_ctx ?s0), encoder := e, trace := trace ?s0 @ cfg,
               avInFrame := Some inF, inputLineSizes := Some (AV_PIX_FMT_RGB24, img_width m),
               swsCtx := Some sws, avOutFrame := Some outF \<rparr>"
    from assms True cb have "encode lib m ?s1 = Some r"
      by (simp add: publish_def Let_def log_def)
    from encode_spec [OF this] obtain evs fo fc e' h i where
      "final r = ?s1\<lparr> trace := trace ?s1 @ evs, avOutFrame := fo,
          frameCount := fc, encoder := e', mem := h, frameIdx := i \<rparr>"
      by (elim exE conjE) (rule that)
    then have "codec_ctx (final r) = configure m (codec_ctx s)"
      and "trace (final r) = trace s @ (Lock # cfg @ evs)"
      by (simp_all add: log_def)
    then show ?thesis using True by auto
  qed
qed

lemma publish_context:
  assumes "publish lib m s = Some r"
  shows "codec_ctx (final r) =
    (if height (codec_ctx s) = 0 then configure m (codec_ctx s) else codec_ctx s)"
  using publish_any [OF assms] by simp

lemma time_base_configure: "time_base (configure m c) = \<lparr> num = 1, den = 30 \<rparr>"
  by (simp add: configure_def Let_def)

lemma publish_time_base:
  assumes "time_base_set s" and "publish lib m s = Some r"
  shows "time_base (codec_ctx (final r)) = \<lparr> num = 1, den = 30 \<rparr> \<and> time_base_set (final r)"
  using assms publish_context [OF assms(2)]
  by (auto simp: time_base_set_def time_base_configure)

lemma publish_all_time_base:
  assumes "time_base_set s" and "publish_all lib ms s = Some r"
  shows "time_base_set (final r)"
  using assms
proof (induction ms arbitrary: s)
  case Nil
  then show ?case by auto
next
  case (Cons m ms)
  from Cons.prems(2) obtain r1 where p: "publish lib m s = Some r1"
    by (cases "publish lib m s") simp_all
  show ?case
  proof (cases r1)
    case (Returned s1)
    with Cons.prems(2) p have "publish_all lib ms s1 = Some r" by simp
    moreover have "time_base_set s1"
      using publish_time_base [OF Cons.prems(1) p] Returned by simp
    ultimately show ?thesis by (rule Cons.IH [rotated])
  next
    case (Crashed f s1)
    with Cons.prems(2) p have "r = r1" by simp
    then show ?thesis using publish_time_base [OF Cons.prems(1) p] by simp
  qed
qed

text \<open>What the scripted encoders do, for the witnesses below.\<close>

lemma first_call_one_packet:
  "\<exists>s. publish scripted (image 64 64) (constructed one_packet blank) = Some (Returned s)
     \<and> height (codec_ctx s) = 64"
  by (simp add: eval_publish one_packet_def positive_time_base_def serialize_plain
      drain_loop_packet [where w = "wr 68 (stream lavc_lp64 packet_plain 0x1000)"])

lemma two_calls_one_packet:
  "\<exists>s. publish_all scripted [image 64 64, image 64 64] (constructed one_packet blank)
     = Some (Returned s)"
  by (simp add: eval_publish one_packet_def positive_time_base_def serialize_plain
      drain_loop_packet [where w = "wr 68 (stream lavc_lp64 packet_plain 0x1000)"])

lemma second_call_one_packet:
  assumes "publish scripted (image 64 64) (constructed one_packet blank) = Some (Returned s)"
  shows "\<exists>s'. publish scripted (image 64 64) s = Some (Returned s')"
proof -
  from two_calls_one_packet obtain s2 where
    "publish_all scripted [image 64 64, image 64 64] (constructed one_packet blank)
       = Some (Returned s2)" ..
  with assms have "publish_all scripted [image 64 64] s = Some (Returned s2)"
    by simp
  then show ?thesis
    by (cases "publish scripted (image 64 64) s") (auto split: outcome.splits)
qed

section \<open>Lemmas: counting submissions\<close>

lemma submitted_pts_append: "submitted_pts (xs @ ys) = submitted_pts xs @ submitted_pts ys"
  by (induction xs) (simp_all split: event.splits)

lemma configuration_counts:
  "list_all is_configuration cfg \<Longrightarrow> submitted_pts cfg = [] \<and> count_list cfg Sws_Scale = 0"
proof (induction cfg)
  case Nil
  then show ?case by simp
next
  case (Cons ev cfg)
  then show ?case by (cases ev) simp_all
qed

lemma drain_counts:
  "list_all is_drain dr \<Longrightarrow> submitted_pts dr = [] \<and> count_list dr Sws_Scale = 0"
proof (induction dr)
  case Nil
  then show ?case by simp
next
  case (Cons ev dr)
  then show ?case by (cases ev) simp_all
qed

lemma retried_counts:
  "list_all (retried f) xs \<Longrightarrow>
     submitted_pts xs = replicate (length xs) (pts f) \<and> count_list xs Sws_Scale = 0"
proof (induction xs)
  case Nil
  then show ?case by simp
next
  case (Cons ev xs)
  then show ?case by (cases ev) (simp_all add: retried_def)
qed

lemma submissions_counts:
  assumes "submissions f sends"
  shows "\<exists>n. submitted_pts sends = replicate (n + 2) (pts f) \<and> count_list sends Sws_Scale = 0"
proof -
  from assms obtain r0 loop where sends: "sends = Send_Frame f r0 # loop"
    and rl: "retry_loop f loop"
    by (auto simp: submissions_def split: list.splits event.splits)
  from rl have loop: "loop = butlast loop @ [Send_Frame f 0]"
    by (metis append_butlast_last_id retry_loop_def)
  from rl have "list_all (retried f) (butlast loop)"
    by (simp add: retry_loop_def)
  from retried_counts [OF this] have
    b: "submitted_pts (butlast loop) = replicate (length (butlast loop)) (pts f)"
    and c: "count_list (butlast loop) Sws_Scale = 0"
    by simp_all
  have "submitted_pts loop = submitted_pts (butlast loop) @ submitted_pts [Send_Frame f 0]"
    by (subst loop) (rule submitted_pts_append)
  with b have "submitted_pts loop = replicate (length (butlast loop) + 1) (pts f)"
    by (simp add: replicate_append_same)
  then have "submitted_pts sends = replicate (length (butlast loop) + 2) (pts f)"
    using sends by simp
  moreover have "count_list loop Sws_Scale = 0"
    by (subst loop) (simp add: c)
  then have "count_list sends Sws_Scale = 0"
    using sends by simp
  ultimately show ?thesis by blast
qed

lemma publish_counts:
  assumes "publish lib m s = Some (Returned s')"
  shows "\<exists>evs. trace s' = trace s @ evs
     \<and> ((submitted_pts evs = [] \<and> frameCount s' = frameCount s \<and> count_list evs Sws_Scale = 0)
        \<or> (\<exists>n. submitted_pts evs = replicate (n + 2) (frameCount s)
              \<and> frameCount s' = frameCount s + 1 \<and> count_list evs Sws_Scale = 1))"
proof -
  from publish_returned [OF assms] obtain cfg where
    cfg: "list_all is_configuration cfg"
    and alt: "(height (codec_ctx s) = 0 \<and> trace s' = trace s @ Lock # cfg @ [Unlock]
           \<and> frameCount s' = frameCount s)
        \<or> (\<exists>outF p sends dr.
             trace s' = trace s @ Lock # cfg @ [Image_Copy, Sws_Scale, Packet_Alloc p] @ sends @ dr
               @ [Packet_Unref, Unlock]
           \<and> submissions (outF\<lparr> pts := frameCount s \<rparr>) sends
           \<and> list_all is_drain dr
           \<and> (positive_time_base (codec_ctx s') \<longrightarrow> drained (layout lib) m p dr)
           \<and> frameCount s' = frameCount s + 1
           \<and> (height (codec_ctx s) \<noteq> 0 \<longrightarrow> avOutFrame s = Some outF))"
    by (elim exE conjE) (rule that)
  from configuration_counts [OF cfg] have
    c1: "submitted_pts cfg = []" and c2: "count_list cfg Sws_Scale = 0"
    by simp_all
  from alt show ?thesis
  proof
    assume a: "height (codec_ctx s) = 0 \<and> trace s' = trace s @ Lock # cfg @ [Unlock]
           \<and> frameCount s' = frameCount s"
    let ?evs = "Lock # cfg @ [Unlock]"
    have "submitted_pts ?evs = []" "count_list ?evs Sws_Scale = 0"
      using c1 c2 by (simp_all add: submitted_pts_append)
    with a show ?thesis by (intro exI [of _ ?evs]) simp
  next
    assume "\<exists>outF p sends dr.
             trace s' = trace s @ Lock # cfg @ [Image_Copy, Sws_Scale, Packet_Alloc p] @ sends @ dr
               @ [Packet_Unref, Unlock]
           \<and> submissions (outF\<lparr> pts := frameCount s \<rparr>) sends
           \<and> list_all is_drain dr
           \<and> (positive_time_base (codec_ctx s') \<longrightarrow> drained (layout lib) m p dr)
           \<and> frameCount s' = frameCount s + 1
           \<and> (height (codec_ctx s) \<noteq> 0 \<longrightarrow> avOutFrame s = Some outF)"
    then obtain outF p sends dr where
      t: "trace s' = trace s @ Lock # cfg @ [Image_Copy, Sws_Scale, Packet_Alloc p] @ sends @ dr
               @ [Packet_Unref, Unlock]"
      and su: "submissions (outF\<lparr> pts := frameCount s \<rparr>) sends"
      and d: "list_all is_drain dr"
      and f: "frameCount s' = frameCount s + 1"
      by blast
    let ?evs = "Lock # cfg @ [Image_Copy, Sws_Scale, Packet_Alloc p] @ sends @ dr
               @ [Packet_Unref, Unlock]"
    from submissions_counts [OF su] obtain n where
      s1: "submitted_pts sends = replicate (n + 2) (frameCount s)"
      and s2: "count_list sends Sws_Scale = 0"
      by auto
    from drain_counts [OF d] have d1: "submitted_pts dr = []" and d2: "count_list dr Sws_Scale = 0"
      by simp_all
    have "submitted_pts ?evs = replicate (n + 2) (frameCount s)"
      using c1 s1 d1 by (simp add: submitted_pts_append)
    moreover have "count_list ?evs Sws_Scale = 1"
      using c2 s2 d2 by simp
    ultimately show ?thesis using t f by (intro exI [of _ ?evs]) auto
  qed
qed

lemma publish_all_counts:
  assumes "publish_all lib ms s = Some (Returned s')"
  shows "\<exists>evs. trace s' = trace s @ evs
     \<and> frameCount s' = frameCount s + of_nat (count_list evs Sws_Scale)
     \<and> count_list evs Sws_Scale \<le> length ms"
  using assms
proof (induction ms arbitrary: s)
  case Nil
  then have "s' = s" by simp
  then show ?case by (intro exI [of _ "[]"]) simp
next
  case (Cons m ms)
  from Cons.prems obtain s1 where p: "publish lib m s = Some (Returned s1)"
    and rest: "publish_all lib ms s1 = Some (Returned s')"
    by (cases "publish lib m s") (auto split: outcome.splits)
  from publish_counts [OF p] obtain evs where
    t: "trace s1 = trace s @ evs"
    and c: "frameCount s1 = frameCount s + of_nat (count_list evs Sws_Scale)"
    and l: "count_list evs Sws_Scale \<le> 1"
    by auto
  from Cons.IH [OF rest] obtain evs' where
    t': "trace s' = trace s1 @ evs'"
    and c': "frameCount s' = frameCount s1 + of_nat (count_list evs' Sws_Scale)"
    and l': "count_list evs' Sws_Scale \<le> length ms"
    by blast
  from t t' have "trace s' = trace s @ (evs @ evs')" by simp
  moreover from c c' have
    "frameCount s' = frameCount s + of_nat (count_list (evs @ evs') Sws_Scale)"
    by simp
  moreover from l l' have "count_list (evs @ evs') Sws_Scale \<le> length (m # ms)"
    by simp
  ultimately show ?case by blast
qed

section \<open>Lemmas: faults of the serialiser\<close>

lemma and_then_Inl [simp]: "and_then (Inl e) f = Inl e"
  by (simp add: and_then_def)

lemma memcpy_negative: "k < 0 \<Longrightarrow> memcpy h src k w = Inl Wild_Copy"
  by (simp add: memcpy_def)

lemma copy_side_data_fault:
  "\<not> list_all (\<lambda>i. 0 \<le> sint (load_i32 h (member (side_data_at L h p i) (sd_size L)))) is \<Longrightarrow>
   0 < n \<Longrightarrow> \<exists>f. copy_side_data L h p is (wr n s) = Inl f"
proof (induction "is" arbitrary: s)
  case Nil
  then show ?case by simp
next
  case (Cons i "is")
  show ?case
  proof (cases "0 \<le> sint (load_i32 h (member (side_data_at L h p i) (sd_size L)))")
    case True
    with Cons.prems have
      "\<not> list_all (\<lambda>i. 0 \<le> sint (load_i32 h (member (side_data_at L h p i) (sd_size L)))) is"
      by simp
    from Cons.IH [OF this Cons.prems(2)] True Cons.prems(2) show ?thesis
      by (simp add: memcpy_wr Let_def)
  next
    case False
    with Cons.prems(2) show ?thesis
      by (simp add: memcpy_wr memcpy_negative Let_def)
  qed
qed

lemma serialize_empty_vector:
  assumes "load_ptr h (member p (pkt_buf L)) \<noteq> 0" and "sint (size_data L h p) = 0"
  shows "serialize L h p = Inl Null_Deref"
  using assms by (simp add: serialize_def Let_def resize_def memcpy_def)

lemma serialize_fault:
  assumes "\<not> sizes_ok L h p"
  shows "\<exists>f. serialize L h p = Inl f"
proof -
  let ?buf = "load_ptr h (member p (pkt_buf L))"
  let ?n = "sint (size_data L h p)"
  let ?B = "sint (load_i32 h (member ?buf (buf_size L)))"
  let ?P = "sint (load_i32 h (member p (pkt_size L)))"
  consider "?buf = 0" | "?buf \<noteq> 0" "?n < 0" | "?buf \<noteq> 0" "?n = 0"
    | "?buf \<noteq> 0" "0 < ?n" "?B < 0"
    | "?buf \<noteq> 0" "0 < ?n" "0 \<le> ?B" "?P < 0"
    | "?buf \<noteq> 0" "0 < ?n" "0 \<le> ?B" "0 \<le> ?P"
      "\<not> list_all (\<lambda>i. 0 \<le> sint (load_i32 h (member (side_data_at L h p i) (sd_size L))))
           (side_data_indices L h p)"
    using assms unfolding sizes_ok_def Let_def by fastforce
  then show ?thesis
  proof cases
    case 1
    then show ?thesis by (simp add: serialize_def Let_def)
  next
    case 2
    then show ?thesis by (simp add: serialize_def Let_def resize_def)
  next
    case 3
    then show ?thesis by (simp add: serialize_empty_vector)
  next
    case 4
    then show ?thesis
      by (simp add: serialize_def Let_def resize_wr memcpy_wr memcpy_negative)
  next
    case 5
    then show ?thesis
      by (simp add: serialize_def Let_def resize_wr memcpy_wr memcpy_negative)
  next
    case 6
    from 6(2) have "0 < nat ?n" by simp
    from copy_side_data_fault [OF 6(5) this] obtain f where
      "copy_side_data L h p (side_data_indices L h p) (wr (nat ?n)
         (load_bytes h (member ?buf (buf_size L)) 4
          @ load_bytes h (load_ptr h (member ?buf (buf_data L))) (nat ?B)
          @ load_bytes h (member p (pkt_size L)) 4
          @ load_bytes h (member p (pkt_data L)) (nat ?P)
          @ load_bytes h (member p (pkt_pts L)) 8
          @ load_bytes h (member p (pkt_dts L)) 8
          @ load_bytes h (member p (pkt_stream_index L)) 4
          @ load_bytes h (member p (pkt_flags L)) 4
          @ load_bytes h (member p (pkt_side_data_elems L)) 4)) = Inl f"
      by blast
    with 6 show ?thesis
      by (simp add: serialize_def Let_def resize_wr memcpy_wr)
  qed
qed

lemma serialize_Inr:
  assumes "serialize L h p = Inr w"
  shows "sizes_ok L h p \<and> w = wr (nat (sint (size_data L h p))) (stream L h p)"
proof -
  have ok: "sizes_ok L h p"
  proof (rule ccontr)
    assume "\<not> sizes_ok L h p"
    from serialize_fault [OF this] assms show False by auto
  qed
  with serialize_wr [OF ok] assms show ?thesis by simp
qed

section \<open>Lemmas: the events of one call\<close>

lemma published_append: "published (xs @ ys) = published xs @ published ys"
  by (induction xs) (simp_all split: event.splits)

lemma received_append: "received (xs @ ys) = received xs @ received ys"
  by (induction xs) (simp_all split: event.splits)

lemma sends_quiet:
  "list_all is_send xs \<Longrightarrow> published xs = [] \<and> received xs = []"
proof (induction xs)
  case Nil
  then show ?case by simp
next
  case (Cons ev xs)
  then show ?case by (cases ev) simp_all
qed

lemma retried_is_send: "retried f ev \<Longrightarrow> is_send ev"
  by (cases ev) (simp_all add: retried_def)

lemma submissions_are_sends:
  assumes "submissions f sends"
  shows "list_all is_send sends"
proof -
  from assms obtain r0 loop where sends: "sends = Send_Frame f r0 # loop"
    and rl: "retry_loop f loop"
    by (auto simp: submissions_def split: list.splits event.splits)
  from rl have loop: "loop = butlast loop @ [Send_Frame f 0]"
    by (metis append_butlast_last_id retry_loop_def)
  from rl have "list_all (retried f) (butlast loop)"
    by (simp add: retry_loop_def)
  then have "list_all is_send (butlast loop)"
    by (auto simp: list_all_iff intro: retried_is_send)
  then have "list_all is_send loop"
    by (subst loop) simp
  with sends show ?thesis by simp
qed

lemma drained_is_drain: "drained L m p dr \<Longrightarrow> list_all is_drain dr"
proof (induction dr rule: length_induct)
  case (1 dr)
  show ?case
  proof (cases dr)
    case Nil
    with 1 show ?thesis by simp
  next
    case (Cons ev evs)
    with 1(2) obtain r h where ev: "ev = Receive_Packet r h"
      by (cases ev) simp_all
    show ?thesis
    proof (cases "r \<ge> 0")
      case False
      with 1(2) Cons ev show ?thesis by simp
    next
      case True
      with 1(2) Cons ev obtain c rest where evs: "evs = Publish c # rest"
        and d: "drained L m p rest"
        by (auto split: list.splits event.splits)
      from 1(1) d Cons evs have "list_all is_drain rest" by simp
      with Cons ev evs show ?thesis by simp
    qed
  qed
qed

lemma drained_published:
  "drained L m p dr \<Longrightarrow> map Some (published dr) = map (\<lambda>h. envelope L m h p) (received dr)"
proof (induction dr rule: length_induct)
  case (1 dr)
  show ?case
  proof (cases dr)
    case Nil
    with 1 show ?thesis by simp
  next
    case (Cons ev evs)
    with 1(2) obtain r h where ev: "ev = Receive_Packet r h"
      by (cases ev) simp_all
    show ?thesis
    proof (cases "r \<ge> 0")
      case False
      with 1(2) Cons ev show ?thesis by simp
    next
      case True
      with 1(2) Cons ev obtain c rest where evs: "evs = Publish c # rest"
        and e: "envelope L m h p = Some c"
        and d: "drained L m p rest"
        by (auto split: list.splits event.splits)
      from 1(1) d Cons evs have
        "map Some (published rest) = map (\<lambda>h. envelope L m h p) (received rest)" by simp
      with Cons ev evs e True show ?thesis by simp
    qed
  qed
qed

lemma encoding_counts:
  assumes "submissions f sends" and "list_all is_drain dr"
  shows "count_list (pre @ [Image_Copy, Sws_Scale, Packet_Alloc p] @ sends @ dr
            @ [Packet_Unref, Unlock]) Sws_Scale = count_list pre Sws_Scale + 1"
    and "\<exists>n. submitted_pts (pre @ [Image_Copy, Sws_Scale, Packet_Alloc p] @ sends @ dr
            @ [Packet_Unref, Unlock]) = submitted_pts pre @ replicate (n + 2) (pts f)"
proof -
  from submissions_counts [OF assms(1)] obtain n where
    s1: "submitted_pts sends = replicate (n + 2) (pts f)"
    and s2: "count_list sends Sws_Scale = 0"
    by auto
  from drain_counts [OF assms(2)] have
    d1: "submitted_pts dr = []" and d2: "count_list dr Sws_Scale = 0"
    by simp_all
  show "count_list (pre @ [Image_Copy, Sws_Scale, Packet_Alloc p] @ sends @ dr
            @ [Packet_Unref, Unlock]) Sws_Scale = count_list pre Sws_Scale + 1"
    using s2 d2 by simp
  have "submitted_pts (pre @ [Image_Copy, Sws_Scale, Packet_Alloc p] @ sends @ dr
            @ [Packet_Unref, Unlock]) = submitted_pts pre @ replicate (n + 2) (pts f)"
    using s1 d1 by (simp add: submitted_pts_append)
  then show "\<exists>n. submitted_pts (pre @ [Image_Copy, Sws_Scale, Packet_Alloc p] @ sends @ dr
            @ [Packet_Unref, Unlock]) = submitted_pts pre @ replicate (n + 2) (pts f)" ..
qed

lemma encoding_published:
  assumes "submissions f sends" and "drained L m p dr"
    and "published pre = []" and "received pre = []"
  shows "map Some (published (pre @ [Image_Copy, Sws_Scale, Packet_Alloc p] @ sends @ dr
            @ [Packet_Unref, Unlock]))
       = map (\<lambda>h. envelope L m h p) (received (pre @ [Image_Copy, Sws_Scale, Packet_Alloc p]
            @ sends @ dr @ [Packet_Unref, Unlock]))"
proof -
  from sends_quiet [OF submissions_are_sends [OF assms(1)]] have
    "published sends = []" "received sends = []" by simp_all
  with drained_published [OF assms(2)] assms(3,4) show ?thesis
    by (simp add: published_append received_append)
qed

lemma take_drop_take:
  "k + j \<le> n \<Longrightarrow> take j (drop k (take n xs)) = take j (drop k xs)"
  by (simp add: drop_take min_def)

lemma pts_field_envelope:
  assumes "envelope L m h p = Some msg"
    and "pts_offset L h p + 8 \<le> length (c_data msg)"
  shows "pts_field L h p (c_data msg) = load_bytes h (member p (pkt_pts L)) 8"
proof -
  from assms(1) obtain w where w: "serialize L h p = Inr w" and c: "c_data msg = vec w"
    by (auto simp: envelope_def split: sum.splits)
  from serialize_Inr [OF w] have ok: "sizes_ok L h p"
    and wr: "w = wr (nat (sint (size_data L h p))) (stream L h p)"
    by simp_all
  let ?n = "nat (sint (size_data L h p))"
  let ?B = "nat (sint (load_i32 h (member (load_ptr h (member p (pkt_buf L))) (buf_size L))))"
  let ?P = "nat (sint (load_i32 h (member p (pkt_size L))))"
  from c wr have len: "length (c_data msg) = ?n"
    by (simp add: wr_def)
  with assms(2) have le: "pts_offset L h p + 8 \<le> ?n" by simp
  have "take 8 (drop (pts_offset L h p) (stream L h p)) = load_bytes h (member p (pkt_pts L)) 8"
    by (simp add: stream_def pts_offset_def Let_def)
  moreover have "take 8 (drop (pts_offset L h p) (stream L h p @ replicate (?n - length (stream L h p)) 0))
      = take 8 (drop (pts_offset L h p) (stream L h p))"
    by (simp add: stream_def pts_offset_def Let_def)
  ultimately show ?thesis
    using c wr le by (simp add: pts_field_def wr_def take_drop_take)
qed

lemma config_block_cases:
  "(\<not> checks_pass lib
      \<and> config_block lib m s = Return_Early (s\<lparr> codec_ctx := configure m (codec_ctx s) \<rparr>))
   \<or> (checks_pass lib
      \<and> (\<exists>r e. r < 0 \<and> config_block lib m s = Return_Early
           (s\<lparr> codec_ctx := configure m (codec_ctx s), encoder := e,
               trace := trace s @ [Codec_Open r] \<rparr>)))
   \<or> (checks_pass lib
      \<and> (\<exists>r e inF sws outF. 0 \<le> r \<and> config_block lib m s = Fall_Through
           (s\<lparr> codec_ctx := configure m (codec_ctx s), encoder := e,
               trace := trace s @ [Codec_Open r, Frame_Alloc inF, Sws_Get_Context sws, Frame_Alloc outF],
               avInFrame := Some inF, inputLineSizes := Some (AV_PIX_FMT_RGB24, img_width m),
               swsCtx := Some sws, avOutFrame := Some outF \<rparr>)))"
proof (cases "checks_pass lib")
  case False
  then have "config_block lib m s = Return_Early (s\<lparr> codec_ctx := configure m (codec_ctx s) \<rparr>)"
    by (auto simp: checks_pass_def config_block_def Let_def split: option.splits)
  with False show ?thesis by simp
next
  case True
  then obtain desc where d: "av_pix_fmt_desc_get lib AV_PIX_FMT_RGB24 = Some desc"
    and b: "c_div (av_get_bits_per_pixel lib desc) 8 = 3"
      "c_mod (av_get_bits_per_pixel lib desc) 8 = 0"
    by (auto simp: checks_pass_def split: option.splits)
  let ?s1 = "s\<lparr> codec_ctx := configure m (codec_ctx s) \<rparr>"
  obtain r e where op: "avcodec_open2 lib (encoder ?s1) (codec_ctx ?s1) = (r, e)"
    by (cases "avcodec_open2 lib (encoder ?s1) (codec_ctx ?s1)")
  show ?thesis
  proof (cases "r < 0")
    case neg: True
    with d b op have "config_block lib m s = Return_Early
          (s\<lparr> codec_ctx := configure m (codec_ctx s), encoder := e,
               trace := trace s @ [Codec_Open r] \<rparr>)"
      by (simp add: config_block_def Let_def log_def)
    with neg True show ?thesis by blast
  next
    case False
    let ?s2 = "log (Codec_Open r) (?s1\<lparr> encoder := e \<rparr>)"
    from allocate_spec [of m ?s2] obtain inF sws outF where
      al: "allocate m ?s2 = ?s2\<lparr> avInFrame := Some inF,
          inputLineSizes := Some (AV_PIX_FMT_RGB24, img_width m),
          swsCtx := Some sws, avOutFrame := Some outF,
          trace := trace ?s2 @ [Frame_Alloc inF, Sws_Get_Context sws, Frame_Alloc outF] \<rparr>"
      by (elim exE)
    from d b op False al have "config_block lib m s = Fall_Through
           (s\<lparr> codec_ctx := configure m (codec_ctx s), encoder := e,
               trace := trace s @ [Codec_Open r, Frame_Alloc inF, Sws_Get_Context sws, Frame_Alloc outF],
               avInFrame := Some inF, inputLineSizes := Some (AV_PIX_FMT_RGB24, img_width m),
               swsCtx := Some sws, avOutFrame := Some outF \<rparr>)"
      by (simp add: config_block_def Let_def log_def)
    moreover from False have "0 \<le> r" by simp
    ultimately show ?thesis using True by blast
  qed
qed

lemma encode_segment:
  assumes "encode lib m s0 = Some (Returned s')"
    and "submitted_pts pre = []" and "published pre = []" and "received pre = []"
    and "count_list pre Sws_Scale = 0"
  shows "\<exists>rest. trace s' = trace s0 @ rest
     \<and> codec_ctx s' = codec_ctx s0 \<and> frameCount s' = frameCount s0 + 1
     \<and> count_list (pre @ rest) Sws_Scale = 1
     \<and> (\<exists>n. submitted_pts (pre @ rest) = replicate (n + 2) (frameCount s0))
     \<and> (positive_time_base (codec_ctx s0) \<longrightarrow>
          encoding (layout lib) m (frameCount s0) rest
          \<and> (\<exists>p. Packet_Alloc p \<in> set rest
                \<and> map Some (published (pre @ rest))
                    = map (\<lambda>hp. envelope (layout lib) m hp p) (received (pre @ rest))))"
proof -
  from encode_returned [OF assms(1)] obtain outF p sends dr where
    t: "trace s' = trace s0 @ [Image_Copy, Sws_Scale, Packet_Alloc p] @ sends @ dr
          @ [Packet_Unref, Unlock]"
    and su: "submissions (outF\<lparr> pts := frameCount s0 \<rparr>) sends"
    and d: "list_all is_drain dr"
    and dd: "positive_time_base (codec_ctx s0) \<longrightarrow> drained (layout lib) m p dr"
    and f: "frameCount s' = frameCount s0 + 1" and c: "codec_ctx s' = codec_ctx s0"
    by blast
  let ?f = "outF\<lparr> pts := frameCount s0 \<rparr>"
  let ?rest = "[Image_Copy, Sws_Scale, Packet_Alloc p] @ sends @ dr @ [Packet_Unref, Unlock]"
  have p: "pts ?f = frameCount s0" by simp
  from encoding_counts(1) [OF su d, of pre p] assms(5) have
    n1: "count_list (pre @ ?rest) Sws_Scale = 1" by simp
  from encoding_counts(2) [OF su d, of pre p] assms(2) have
    n2: "\<exists>n. submitted_pts (pre @ ?rest) = replicate (n + 2) (frameCount s0)" by simp
  have n3: "positive_time_base (codec_ctx s0) \<longrightarrow>
          encoding (layout lib) m (frameCount s0) ?rest
          \<and> (\<exists>p. Packet_Alloc p \<in> set ?rest
                \<and> map Some (published (pre @ ?rest))
                    = map (\<lambda>hp. envelope (layout lib) m hp p) (received (pre @ ?rest)))"
  proof
    assume "positive_time_base (codec_ctx s0)"
    with dd have dr: "drained (layout lib) m p dr" by simp
    from su dr p have "encoding (layout lib) m (frameCount s0) ?rest"
      unfolding encoding_def by blast
    moreover have "Packet_Alloc p \<in> set ?rest" by simp
    moreover note encoding_published [OF su dr assms(3) assms(4)]
    ultimately show "encoding (layout lib) m (frameCount s0) ?rest
          \<and> (\<exists>p. Packet_Alloc p \<in> set ?rest
                \<and> map Some (published (pre @ ?rest))
                    = map (\<lambda>hp. envelope (layout lib) m hp p) (received (pre @ ?rest)))"
      by blast
  qed
  show ?thesis
    by (intro exI [of _ ?rest] conjI) (rule t, rule c, rule f, rule n1, rule n2, rule n3)
qed

lemma publish_segment:
  assumes "publish lib m s = Some (Returned s')"
  shows "\<exists>seg. trace s' = trace s @ seg
     \<and> frameCount s' = frameCount s + of_nat (count_list seg Sws_Scale)
     \<and> (positive_time_base (codec_ctx s') \<longrightarrow>
          call_trace lib (height (codec_ctx s)) (frameCount s) m seg)
     \<and> ((height (codec_ctx s) = 0
           \<and> (\<exists>cfg. failed_configuration lib cfg \<and> seg = Lock # cfg @ [Unlock])
           \<and> submitted_pts seg = [] \<and> published seg = [] \<and> frameCount s' = frameCount s)
        \<or> (\<exists>n. submitted_pts seg = replicate (n + 2) (frameCount s)
             \<and> frameCount s' = frameCount s + 1
             \<and> (positive_time_base (codec_ctx s') \<longrightarrow>
                  (\<exists>p. Packet_Alloc p \<in> set seg
                     \<and> map Some (published seg)
                         = map (\<lambda>hp. envelope (layout lib) m hp p) (received seg)))))"
proof (cases "height (codec_ctx s) = 0")
  case False
  with assms have "encode lib m (log Lock s) = Some (Returned s')"
    by (simp add: publish_configured)
  from encode_segment [OF this, of "[Lock]"] obtain rest n where
    t: "trace s' = trace s @ Lock # rest"
    and c: "codec_ctx s' = codec_ctx s" and f: "frameCount s' = frameCount s + 1"
    and n1: "count_list (Lock # rest) Sws_Scale = 1"
    and n2: "submitted_pts (Lock # rest) = replicate (n + 2) (frameCount s)"
    and n3: "positive_time_base (codec_ctx s) \<longrightarrow>
          encoding (layout lib) m (frameCount s) rest
          \<and> (\<exists>p. Packet_Alloc p \<in> set rest
                \<and> map Some (published (Lock # rest))
                    = map (\<lambda>hp. envelope (layout lib) m hp p) (received (Lock # rest)))"
    by (auto simp: log_def)
  have ct: "positive_time_base (codec_ctx s') \<longrightarrow>
          call_trace lib (height (codec_ctx s)) (frameCount s) m (Lock # rest)"
    using n3 c False by (simp add: call_trace_def)
  have pb: "positive_time_base (codec_ctx s') \<longrightarrow>
      (\<exists>p. Packet_Alloc p \<in> set (Lock # rest)
         \<and> map Some (published (Lock # rest))
             = map (\<lambda>hp. envelope (layout lib) m hp p) (received (Lock # rest)))"
    using n3 c by auto
  show ?thesis
    using t f n1 n2 ct pb by (intro exI [of _ "Lock # rest"]) auto
next
  case True
  let ?s0 = "log Lock s"
  from config_block_cases [of lib m ?s0] consider
    (check) "\<not> checks_pass lib"
      "config_block lib m ?s0 = Return_Early (?s0\<lparr> codec_ctx := configure m (codec_ctx ?s0) \<rparr>)"
    | (refused) r e where "checks_pass lib" "r < 0"
      "config_block lib m ?s0 = Return_Early
           (?s0\<lparr> codec_ctx := configure m (codec_ctx ?s0), encoder := e,
               trace := trace ?s0 @ [Codec_Open r] \<rparr>)"
    | (opened) r e inF sws outF where "checks_pass lib" "0 \<le> r"
      "config_block lib m ?s0 = Fall_Through
           (?s0\<lparr> codec_ctx := configure m (codec_ctx ?s0), encoder := e,
               trace := trace ?s0 @ [Codec_Open r, Frame_Alloc inF, Sws_Get_Context sws, Frame_Alloc outF],
               avInFrame := Some inF, inputLineSizes := Some (AV_PIX_FMT_RGB24, img_width m),
               swsCtx := Some sws, avOutFrame := Some outF \<rparr>)"
    by blast
  then show ?thesis
  proof cases
    case check
    with assms True have "s' = log Unlock (?s0\<lparr> codec_ctx := configure m (codec_ctx ?s0) \<rparr>)"
      by (simp add: publish_def Let_def log_def)
    then have t: "trace s' = trace s @ [Lock, Unlock]" and f: "frameCount s' = frameCount s"
      by (simp_all add: log_def)
    have fc: "failed_configuration lib []"
      using check(1) by (simp add: failed_configuration_def)
    then have ct: "call_trace lib (height (codec_ctx s)) (frameCount s) m [Lock, Unlock]"
      unfolding call_trace_def using True by auto
    from fc have ex: "\<exists>cfg. failed_configuration lib cfg \<and> [Lock, Unlock] = Lock # cfg @ [Unlock]"
      by auto
    show ?thesis
      using t f ct ex True by (intro exI [of _ "[Lock, Unlock]"]) simp
  next
    case refused
    with assms True have "s' = log Unlock
           (?s0\<lparr> codec_ctx := configure m (codec_ctx ?s0), encoder := e,
               trace := trace ?s0 @ [Codec_Open r] \<rparr>)"
      by (simp add: publish_def Let_def log_def)
    then have t: "trace s' = trace s @ [Lock, Codec_Open r, Unlock]"
      and f: "frameCount s' = frameCount s"
      by (simp_all add: log_def)
    have fc: "failed_configuration lib [Codec_Open r]"
      using refused(1,2) by (simp add: failed_configuration_def)
    then have ex: "\<exists>cfg. failed_configuration lib cfg
        \<and> [Lock, Codec_Open r, Unlock] = Lock # cfg @ [Unlock]"
      by auto
    then have ct: "call_trace lib (height (codec_ctx s)) (frameCount s) m
        [Lock, Codec_Open r, Unlock]"
      unfolding call_trace_def using True by simp
    show ?thesis
      using t f ct ex True by (intro exI [of _ "[Lock, Codec_Open r, Unlock]"]) simp
  next
    case opened
    let ?cfg = "[Codec_Open r, Frame_Alloc inF, Sws_Get_Context sws, Frame_Alloc outF]"
    let ?s1 = "?s0\<lparr> codec_ctx := configure m (codec_ctx ?s0), encoder := e,
               trace := trace ?s0 @ ?cfg,
               avInFrame := Some inF, inputLineSizes := Some (AV_PIX_FMT_RGB24, img_width m),
               swsCtx := Some sws, avOutFrame := Some outF \<rparr>"
    from assms True opened(3) have "encode lib m ?s1 = Some (Returned s')"
      by (simp add: publish_def Let_def log_def)
    from encode_segment [OF this, of "Lock # ?cfg"] obtain rest n where
      t: "trace s' = trace s @ Lock # ?cfg @ rest"
      and c: "codec_ctx s' = configure m (codec_ctx s)"
      and f: "frameCount s' = frameCount s + 1"
      and n1: "count_list (Lock # ?cfg @ rest) Sws_Scale = 1"
      and n2: "submitted_pts (Lock # ?cfg @ rest) = replicate (n + 2) (frameCount s)"
      and n3: "positive_time_base (configure m (codec_ctx s)) \<longrightarrow>
          encoding (layout lib) m (frameCount s) rest
          \<and> (\<exists>p. Packet_Alloc p \<in> set rest
                \<and> map Some (published (Lock # ?cfg @ rest))
                    = map (\<lambda>hp. envelope (layout lib) m hp p) (received (Lock # ?cfg @ rest)))"
      by (auto simp: log_def)
    have cf: "configuration lib ?cfg"
      using opened(1,2) by (simp add: configuration_def)
    have ct: "positive_time_base (codec_ctx s') \<longrightarrow>
          call_trace lib (height (codec_ctx s)) (frameCount s) m (Lock # ?cfg @ rest)"
    proof
      assume "positive_time_base (codec_ctx s')"
      with n3 c have "encoding (layout lib) m (frameCount s) rest" by simp
      with cf have "\<exists>cfg rest'. configuration lib cfg \<and> Lock # ?cfg @ rest = Lock # cfg @ rest'
               \<and> encoding (layout lib) m (frameCount s) rest'"
        by blast
      then show "call_trace lib (height (codec_ctx s)) (frameCount s) m (Lock # ?cfg @ rest)"
        unfolding call_trace_def using True by simp
    qed
    have pb: "positive_time_base (codec_ctx s') \<longrightarrow>
      (\<exists>p. Packet_Alloc p \<in> set (Lock # ?cfg @ rest)
         \<and> map Some (published (Lock # ?cfg @ rest))
             = map (\<lambda>hp. envelope (layout lib) m hp p) (received (Lock # ?cfg @ rest)))"
      using n3 c by auto
    have alt: "\<exists>n. submitted_pts (Lock # ?cfg @ rest) = replicate (n + 2) (frameCount s)
             \<and> frameCount s' = frameCount s + 1
             \<and> (positive_time_base (codec_ctx s') \<longrightarrow>
                  (\<exists>p. Packet_Alloc p \<in> set (Lock # ?cfg @ rest)
                     \<and> map Some (published (Lock # ?cfg @ rest))
                         = map (\<lambda>hp. envelope (layout lib) m hp p)
                             (received (Lock # ?cfg @ rest))))"
      using n2 f pb by blast
    have fc: "frameCount s' = frameCount s + of_nat (count_list (Lock # ?cfg @ rest) Sws_Scale)"
      using f n1 by simp
    have tt: "trace s' = trace s @ (Lock # ?cfg @ rest)" using t by simp
    show ?thesis
      by (intro exI [of _ "Lock # ?cfg @ rest"] conjI disjI2) (rule tt, rule fc, rule ct, rule alt)
  qed
qed

text \<open>The first call with the encoder that answers one packet, and that packet's envelope.\<close>

lemma first_call_counter:
  "\<exists>s. publish scripted (image 64 64) (constructed one_packet blank) = Some (Returned s)
     \<and> height (codec_ctx s) = 64 \<and> frameCount s = 1"
  by (simp add: eval_publish one_packet_def positive_time_base_def serialize_plain
      drain_loop_packet [where w = "wr 68 (stream lavc_lp64 packet_plain 0x1000)"])

lemma envelope_plain:
  "\<exists>msg. envelope (layout scripted) (image 64 64) packet_plain 0x1000 = Some msg
     \<and> pts_offset (layout scripted) packet_plain 0x1000 + 8 \<le> length (c_data msg)"
proof -
  have "pts_offset lavc_lp64 packet_plain 0x1000 = 28"
    by (simp add: pts_offset_def eval_load packet_plain_def fixture_bytes)
  then show ?thesis
    by (simp add: envelope_def scripted_def serialize_plain wr_def)
qed

section \<open>The claims\<close>

text \<open>
  C1.  Claim: field 4 of the envelope holds the packet's payload, the \<open>payloadSize\<close> bytes
  that the packet's data pointer points to.  The copy of line 333 reads from
  \<open>&avPacket->data\<close>, the address of the pointer member.  For the packet \<open>packet_plain\<close>
  (payload \<open>A0 .. A9\<close> at 0x3000) field 4 of the vector, the fourth list below, is the eight
  bytes of the pointer 0x3000 followed by the first two bytes of the \<open>size\<close> member that lies
  behind it in the structure; the payload is in the envelope only as part of field 2, the
  buffer, which line 325 copies through \<open>&avPacket->buf->data[0]\<close>.
\<close>

theorem payload_field_holds_pointer:
  "serialize lavc_lp64 packet_plain 0x1000 =
     Inr \<lparr> vec =
            [10, 0, 0, 0] @ [0xA0, 0xA1, 0xA2, 0xA3, 0xA4, 0xA5, 0xA6, 0xA7, 0xA8, 0xA9]
            @ [10, 0, 0, 0] @ [0x00, 0x30, 0, 0, 0, 0, 0, 0, 10, 0]
            @ [0, 0, 0, 0, 0, 0, 0, 0] @ [0, 0, 0, 0, 0, 0, 0, 0]
            @ [0, 0, 0, 0] @ [1, 0, 0, 0] @ [0, 0, 0, 0]
            @ [0, 0, 0, 0, 0, 0, 0, 0] @ [0xFF, 0xFF, 0xFF, 0xFF],
          past_end = [0xFF, 0xFF, 0xFF, 0xFF],
          index_data_compressed = 72 \<rparr>
   \<and> payload lavc_lp64 packet_plain 0x1000 =
       [0xA0, 0xA1, 0xA2, 0xA3, 0xA4, 0xA5, 0xA6, 0xA7, 0xA8, 0xA9]
   \<and> load_ptr packet_plain (member 0x1000 (pkt_data lavc_lp64)) = 0x3000"
proof -
  have "payload lavc_lp64 packet_plain 0x1000 =
      [0xA0, 0xA1, 0xA2, 0xA3, 0xA4, 0xA5, 0xA6, 0xA7, 0xA8, 0xA9]"
    by (simp add: payload_def eval_load packet_plain_def fixture_bytes)
  moreover have "load_ptr packet_plain (member 0x1000 (pkt_data lavc_lp64)) = 0x3000"
    by (simp add: eval_load packet_plain_def fixture_bytes)
  ultimately show ?thesis
    by (simp add: serialize_plain stream_plain wr_def)
qed

text \<open>
  C2.  Claim: the vector is resized to
  \<open>4 + bufferCapacity + 4 + payloadSize + 8 + 8 + 4 + 4 + 4 + sum (4 + 4 + size) + 8 + 8\<close>, the
  number of bytes written, and no copy goes past it.  The sum of line 311 has one term of 4
  less than the copies have \<open>int\<close> members (the comment of line 310, which lists what the
  sum covers, has no \<open>stream_index\<close>), and it has \<open>side_data_elems\<close>, the number of
  entries, as a term: it is the formula of the claim less 4 plus the number of entries.  For
  \<open>packet_plain\<close> (buffer 10, payload 10, no side data) the formula of the claim gives 72,
  \<open>size_data\<close> is 68, the serialiser writes 72 bytes and the last four bytes of \<open>pos\<close> are
  copied behind the vector.
\<close>

theorem size_data_short_by_four:
  "sint (size_data lavc_lp64 packet_plain 0x1000) = 68
   \<and> (4 + 10 + 4 + 10 + 8 + 8 + 4 + 4 + 4 + 0 + 8 + 8 = (72 :: int))
   \<and> map_sum id (\<lambda>w. (length (vec w), index_data_compressed w, past_end w))
        (serialize lavc_lp64 packet_plain 0x1000) = Inr (68, 72, [0xFF, 0xFF, 0xFF, 0xFF])"
  by (simp add: serialize_plain size_data_plain stream_plain wr_def)

text \<open>
  C3.  Claim: a first call with a frame of odd width or height fails with a configuration
  error and creates no encoder session.  The comment of line 112 states the requirement
  (``Resolution must be a multiple of two''); no statement of \<open>publish\<close> tests it.  A first
  call with a 63 x 65 frame stores that geometry in the context and calls \<open>avcodec_open2\<close>.
  With an encoder that opens, the call goes on to allocate the frames and to submit the frame
  (twice, with pts 0).  With an encoder that refuses to open, the call returns, and the
  odd geometry stays in the context with the guard set.
\<close>

theorem odd_geometry_is_configured:
  "map_option observe (publish scripted (image 63 65) (constructed quiet blank)) =
     Some \<lparr> ended = None, ctx_width = 63, ctx_height = 65, ctx_pix_fmt = AV_PIX_FMT_YUV420P,
            opens = [0], submitted = [0, 0], messages = [], counter = 1 \<rparr>
   \<and> map_option observe (publish scripted (image 63 65) (constructed refusing blank)) =
     Some \<lparr> ended = None, ctx_width = 63, ctx_height = 65, ctx_pix_fmt = AV_PIX_FMT_YUV420P,
            opens = [- 22], submitted = [], messages = [], counter = 0 \<rparr>"
  by (simp add: eval_publish quiet_def refusing_def)

text \<open>
  C4.  Claim: a call whose configuration fails leaves the guard (the stored height)
  unchanged, so that the next call configures again.  The assignments of lines 115 and 116 come
  before the three checks, and the returns of lines 161, 166 and 171 do not undo them.  After
  a first call with a 64 x 64 frame on which \<open>avcodec_open2\<close> fails, the stored height is
  64; the second call skips the configuration block (\<open>avcodec_open2\<close> is called once in the
  two calls) and dereferences the null \<open>avInFrame\<close>.  The guard is set in the same way when
  the descriptor is not found and when the bits per pixel are not 24.
\<close>

theorem failed_configuration_sets_guard:
  "map_option observe (publish scripted (image 64 64) (constructed refusing blank)) =
     Some \<lparr> ended = None, ctx_width = 64, ctx_height = 64, ctx_pix_fmt = AV_PIX_FMT_YUV420P,
            opens = [- 22], submitted = [], messages = [], counter = 0 \<rparr>
   \<and> map_option observe
       (publish_all scripted [image 64 64, image 64 64] (constructed refusing blank)) =
     Some \<lparr> ended = Some Null_Deref, ctx_width = 64, ctx_height = 64,
            ctx_pix_fmt = AV_PIX_FMT_YUV420P,
            opens = [- 22], submitted = [], messages = [], counter = 0 \<rparr>
   \<and> map_option observe
       (publish (scripted\<lparr> av_pix_fmt_desc_get := (\<lambda>f. None) \<rparr>) (image 64 64)
          (constructed quiet blank)) =
     Some \<lparr> ended = None, ctx_width = 64, ctx_height = 64, ctx_pix_fmt = AV_PIX_FMT_YUV420P,
            opens = [], submitted = [], messages = [], counter = 0 \<rparr>
   \<and> map_option observe
       (publish (scripted\<lparr> av_get_bits_per_pixel := (\<lambda>d. 32) \<rparr>) (image 64 64)
          (constructed quiet blank)) =
     Some \<lparr> ended = None, ctx_width = 64, ctx_height = 64, ctx_pix_fmt = AV_PIX_FMT_YUV420P,
            opens = [], submitted = [], messages = [], counter = 0 \<rparr>"
  by (simp add: eval_publish quiet_def refusing_def)

text \<open>
  C5.  Once the guard is set (the stored height is not 0), every later call skips the
  configuration block: in a session of any length the context keeps every value, the input
  frame, the scaling context and the line sizes are the ones allocated before, and the events
  the session adds to the trace include no call of \<open>avcodec_open2\<close>, \<open>av_frame_alloc\<close>
  or \<open>sws_getContext\<close>.  This holds however the session ends.
\<close>

theorem configuration_block_skipped:
  assumes "height (codec_ctx s) \<noteq> 0" and "publish_all lib ms s = Some r"
  shows "codec_ctx (final r) = codec_ctx s \<and> avInFrame (final r) = avInFrame s
    \<and> swsCtx (final r) = swsCtx s \<and> inputLineSizes (final r) = inputLineSizes s
    \<and> (\<exists>evs. trace (final r) = trace s @ evs \<and> list_all (\<lambda>ev. \<not> is_configuration ev) evs)"
  using assms
proof (induction ms arbitrary: s)
  case Nil
  then have "final r = s" by auto
  moreover have "list_all (\<lambda>ev. \<not> is_configuration ev) []" by simp
  ultimately show ?case by (metis append_Nil2)
next
  case (Cons m ms)
  from Cons.prems(2) obtain r1 where p: "publish lib m s = Some r1"
    by (cases "publish lib m s") simp_all
  from publish_keeps_configuration [OF Cons.prems(1) p] obtain evs where
    k: "codec_ctx (final r1) = codec_ctx s" "avInFrame (final r1) = avInFrame s"
       "swsCtx (final r1) = swsCtx s" "inputLineSizes (final r1) = inputLineSizes s"
    and t: "trace (final r1) = trace s @ evs"
    and n: "list_all (\<lambda>ev. \<not> is_configuration ev) evs"
    by blast
  show ?case
  proof (cases r1)
    case (Crashed f s1)
    with Cons.prems(2) p have "r = r1" by simp
    with k t n show ?thesis by blast
  next
    case (Returned s1)
    with Cons.prems(2) p have rest: "publish_all lib ms s1 = Some r" by simp
    from k Returned Cons.prems(1) have h: "height (codec_ctx s1) \<noteq> 0" by simp
    from Cons.IH [OF h rest] obtain evs' where
      k': "codec_ctx (final r) = codec_ctx s1" "avInFrame (final r) = avInFrame s1"
          "swsCtx (final r) = swsCtx s1" "inputLineSizes (final r) = inputLineSizes s1"
      and t': "trace (final r) = trace s1 @ evs'"
      and n': "list_all (\<lambda>ev. \<not> is_configuration ev) evs'"
      by blast
    from t t' Returned have "trace (final r) = trace s @ (evs @ evs')" by simp
    moreover from n n' have "list_all (\<lambda>ev. \<not> is_configuration ev) (evs @ evs')" by simp
    ultimately show ?thesis using k k' Returned by (metis final.simps(1))
  qed
qed

theorem configuration_block_skipped_witness:
  "\<exists>s r. height (codec_ctx s) \<noteq> 0
     \<and> publish scripted (image 64 64) (constructed one_packet blank) = Some (Returned s)
     \<and> publish_all scripted [image 64 64] s = Some r
     \<and> codec_ctx (final r) = codec_ctx s \<and> avInFrame (final r) = avInFrame s
     \<and> swsCtx (final r) = swsCtx s \<and> inputLineSizes (final r) = inputLineSizes s
     \<and> (\<exists>evs. trace (final r) = trace s @ evs \<and> list_all (\<lambda>ev. \<not> is_configuration ev) evs)"
proof -
  from first_call_one_packet obtain s where
    s: "publish scripted (image 64 64) (constructed one_packet blank) = Some (Returned s)"
    and h: "height (codec_ctx s) \<noteq> 0"
    by auto
  from two_calls_one_packet obtain s2 where
    "publish_all scripted [image 64 64, image 64 64] (constructed one_packet blank)
       = Some (Returned s2)" ..
  with s have r: "publish_all scripted [image 64 64] s = Some (Returned s2)"
    by simp
  from configuration_block_skipped [OF h r] show ?thesis
    using s h r by blast
qed

text \<open>
  C6.  Claim: each side-data entry is emitted as its size, its type and then \<open>size\<close> bytes
  that are the entry's payload, and entries of sizes 4, 16 and 0 come back from a round trip
  with the same bytes.  The copy of line 371 reads from \<open>&avPacket->side_data[i].data\<close>,
  the address of the entry's pointer member, as line 333 does for the payload.  For
  \<open>packet_side_data\<close> the first entry is emitted with the low four bytes of the pointer
  0x5000 where its bytes \<open>DE AD BE EF\<close> should be, the second with the 16 bytes of its own
  structure (pointer 0x5100, size 16, type 2); the bytes the entries point to are not in the
  envelope, so no reader can recover them.  The count and the sizes and types are emitted as
  the claim says.
\<close>

theorem side_data_holds_pointers:
  "serialize lavc_lp64 packet_side_data 0x1000 =
     Inr \<lparr> vec =
            [10, 0, 0, 0] @ [0xA0, 0xA1, 0xA2, 0xA3, 0xA4, 0xA5, 0xA6, 0xA7, 0xA8, 0xA9]
            @ [10, 0, 0, 0] @ [0x00, 0x30, 0, 0, 0, 0, 0, 0, 10, 0]
            @ [0, 0, 0, 0, 0, 0, 0, 0] @ [0, 0, 0, 0, 0, 0, 0, 0]
            @ [0, 0, 0, 0] @ [1, 0, 0, 0] @ [3, 0, 0, 0]
            @ ([4, 0, 0, 0] @ [1, 0, 0, 0] @ [0x00, 0x50, 0, 0])
            @ ([16, 0, 0, 0] @ [2, 0, 0, 0]
               @ [0x00, 0x51, 0, 0, 0, 0, 0, 0, 16, 0, 0, 0, 2, 0, 0, 0])
            @ ([0, 0, 0, 0] @ [3, 0, 0, 0] @ [])
            @ [0, 0, 0, 0, 0, 0, 0, 0] @ [0xFF, 0xFF, 0xFF, 0xFF, 0xFF, 0xFF, 0xFF],
          past_end = [0xFF],
          index_data_compressed = 116 \<rparr>
   \<and> side_data_bytes lavc_lp64 packet_side_data 0x1000 0 = [0xDE, 0xAD, 0xBE, 0xEF]
   \<and> side_data_bytes lavc_lp64 packet_side_data 0x1000 1 =
       [0x10, 0x11, 0x12, 0x13, 0x14, 0x15, 0x16, 0x17,
        0x18, 0x19, 0x1A, 0x1B, 0x1C, 0x1D, 0x1E, 0x1F]
   \<and> side_data_bytes lavc_lp64 packet_side_data 0x1000 2 = []"
proof -
  have "side_data_bytes lavc_lp64 packet_side_data 0x1000 0 = [0xDE, 0xAD, 0xBE, 0xEF]"
    by (simp add: side_data_bytes_def eval_load packet_side_data_def fixture_bytes)
  moreover have "side_data_bytes lavc_lp64 packet_side_data 0x1000 1 =
       [0x10, 0x11, 0x12, 0x13, 0x14, 0x15, 0x16, 0x17,
        0x18, 0x19, 0x1A, 0x1B, 0x1C, 0x1D, 0x1E, 0x1F]"
    by (simp add: side_data_bytes_def eval_load packet_side_data_def fixture_bytes)
  moreover have "side_data_bytes lavc_lp64 packet_side_data 0x1000 2 = []"
    by (simp add: side_data_bytes_def eval_load packet_side_data_def fixture_bytes)
  moreover have "serialize lavc_lp64 packet_side_data 0x1000 =
      Inr (wr 115 (stream lavc_lp64 packet_side_data 0x1000))"
    by (simp add: serialize_wr [OF sizes_ok_side] size_data_side)
  ultimately show ?thesis
    by (simp add: stream_side wr_def)
qed

text \<open>
  C7.  Claim: the frame of the N-th call carries pts N, the counter being incremented
  exactly once per call, and a single 64 x 64 frame yields a configured session and at least
  one packet with pts 0.  The encoder decides when it returns packets: with one that answers
  the first request with \<open>AVERROR(EAGAIN)\<close>, as an encoder with look-ahead does, the call for
  a single 64 x 64 frame configures the context, submits the frame with pts 0 and publishes
  nothing.  And a call that returns from the configuration block submits nothing and leaves
  the counter as it was.
\<close>

theorem single_frame_may_yield_no_packet:
  "map_option observe (publish scripted (image 64 64) (constructed quiet blank)) =
     Some \<lparr> ended = None, ctx_width = 64, ctx_height = 64, ctx_pix_fmt = AV_PIX_FMT_YUV420P,
            opens = [0], submitted = [0, 0], messages = [], counter = 1 \<rparr>
   \<and> map_option observe (publish scripted (image 64 64) (constructed refusing blank)) =
     Some \<lparr> ended = None, ctx_width = 64, ctx_height = 64, ctx_pix_fmt = AV_PIX_FMT_YUV420P,
            opens = [- 22], submitted = [], messages = [], counter = 0 \<rparr>"
  by (simp add: eval_publish quiet_def refusing_def)

text \<open>
  C7 as amended.  In a session started on a fresh publisher, the frame counter at the start
  of a call is the number of earlier calls that reached the conversion (at most the number of
  earlier calls, and equal to it when none returned from the configuration block); for the
  first call it is 0.  A call that returns has one of two shapes.  Either it found the guard
  at 0 and the configuration failed (a check on the pixel format failed, or libav refused to
  open the codec): then it submitted nothing, published nothing and left the counter as it
  was.  Or it reached the encoding: it submitted its frame two times or more, every time with
  the counter as pts, incremented the counter once, and published the envelopes of the
  packets the encoder returned to it, in the encoder's order and no other message; these may
  be none.  A call that finds the guard set is always of the second shape.  A call that finds
  the guard at 0 leaves the context as \<open>configure\<close> sets it, with the width and height of its
  frame and the pixel format YUV420P; any other call leaves the context as it was.  In an
  envelope long enough to hold it, the pts field is the eight bytes of the packet's pts as the
  encoder left them: the publisher does not stamp the packets with its counter.
\<close>

theorem frame_counter_is_pts:
  assumes "publish_all lib ms (constructed e h) = Some (Returned s)"
    and "publish lib m s = Some (Returned s')"
  shows "frameCount s = of_nat (count_list (trace s) Sws_Scale)
     \<and> count_list (trace s) Sws_Scale \<le> length ms
     \<and> (\<exists>seg. trace s' = trace s @ seg
          \<and> call_trace lib (height (codec_ctx s)) (frameCount s) m seg
          \<and> ((height (codec_ctx s) = 0
                \<and> (\<exists>cfg. failed_configuration lib cfg \<and> seg = Lock # cfg @ [Unlock])
                \<and> submitted_pts seg = [] \<and> published seg = []
                \<and> frameCount s' = frameCount s)
             \<or> (\<exists>n p. submitted_pts seg = replicate (n + 2) (frameCount s)
                   \<and> frameCount s' = frameCount s + 1
                   \<and> Packet_Alloc p \<in> set seg
                   \<and> map Some (published seg)
                       = map (\<lambda>hp. envelope (layout lib) m hp p) (received seg))))
     \<and> codec_ctx s' = (if height (codec_ctx s) = 0 then configure m (codec_ctx s) else codec_ctx s)
     \<and> width (configure m c) = img_width m \<and> height (configure m c) = img_height m
     \<and> pix_fmt (configure m c) = AV_PIX_FMT_YUV420P
     \<and> (envelope (layout lib) m hp p = Some msg
          \<and> pts_offset (layout lib) hp p + 8 \<le> length (c_data msg) \<longrightarrow>
          pts_field (layout lib) hp p (c_data msg)
            = load_bytes hp (member p (pkt_pts (layout lib))) 8)"
proof -
  from publish_all_counts [OF assms(1)] have
    a: "frameCount s = of_nat (count_list (trace s) Sws_Scale)"
    and b: "count_list (trace s) Sws_Scale \<le> length ms"
    by (simp_all add: constructed_def)
  have "time_base_set (constructed e h)"
    by (simp add: time_base_set_def constructed_def default_context_def)
  from publish_all_time_base [OF this assms(1)] have "time_base_set s" by simp
  from publish_time_base [OF this assms(2)] have pos: "positive_time_base (codec_ctx s')"
    by (simp add: positive_time_base_def)
  from publish_segment [OF assms(2)] pos have
    c: "\<exists>seg. trace s' = trace s @ seg
          \<and> call_trace lib (height (codec_ctx s)) (frameCount s) m seg
          \<and> ((height (codec_ctx s) = 0
                \<and> (\<exists>cfg. failed_configuration lib cfg \<and> seg = Lock # cfg @ [Unlock])
                \<and> submitted_pts seg = [] \<and> published seg = []
                \<and> frameCount s' = frameCount s)
             \<or> (\<exists>n p. submitted_pts seg = replicate (n + 2) (frameCount s)
                   \<and> frameCount s' = frameCount s + 1
                   \<and> Packet_Alloc p \<in> set seg
                   \<and> map Some (published seg)
                       = map (\<lambda>hp. envelope (layout lib) m hp p) (received seg)))"
    by (elim exE conjE disjE) blast+
  from publish_context [OF assms(2)] have
    d: "codec_ctx s' = (if height (codec_ctx s) = 0 then configure m (codec_ctx s) else codec_ctx s)"
    by simp
  have e: "width (configure m c) = img_width m \<and> height (configure m c) = img_height m
     \<and> pix_fmt (configure m c) = AV_PIX_FMT_YUV420P"
    by (simp add: configure_def Let_def)
  have f: "envelope (layout lib) m hp p = Some msg
          \<and> pts_offset (layout lib) hp p + 8 \<le> length (c_data msg) \<longrightarrow>
          pts_field (layout lib) hp p (c_data msg)
            = load_bytes hp (member p (pkt_pts (layout lib))) 8"
    using pts_field_envelope by blast
  from a b c d e f show ?thesis by (intro conjI) simp_all
qed

theorem frame_counter_is_pts_witness:
  "\<exists>s1 s2 msg.
     publish_all scripted [] (constructed one_packet blank)
       = Some (Returned (constructed one_packet blank))
     \<and> publish scripted (image 64 64) (constructed one_packet blank) = Some (Returned s1)
     \<and> publish_all scripted [image 64 64] (constructed one_packet blank) = Some (Returned s1)
     \<and> publish scripted (image 64 64) s1 = Some (Returned s2)
     \<and> envelope (layout scripted) (image 64 64) packet_plain 0x1000 = Some msg
     \<and> pts_offset (layout scripted) packet_plain 0x1000 + 8 \<le> length (c_data msg)
     \<and> pts_field (layout scripted) packet_plain 0x1000 (c_data msg)
         = load_bytes packet_plain (member 0x1000 (pkt_pts (layout scripted))) 8
     \<and> (\<exists>seg. trace s1 = trace (constructed one_packet blank) @ seg
          \<and> call_trace scripted 0 0 (image 64 64) seg)
     \<and> width (codec_ctx s1) = 64 \<and> height (codec_ctx s1) = 64
     \<and> pix_fmt (codec_ctx s1) = AV_PIX_FMT_YUV420P
     \<and> frameCount s1 = 1 \<and> count_list (trace s1) Sws_Scale \<le> 1
     \<and> (\<exists>seg n p. trace s2 = trace s1 @ seg
          \<and> call_trace scripted 64 1 (image 64 64) seg
          \<and> submitted_pts seg = replicate (n + 2) 1
          \<and> Packet_Alloc p \<in> set seg
          \<and> map Some (published seg)
              = map (\<lambda>hp. envelope (layout scripted) (image 64 64) hp p) (received seg))
     \<and> frameCount s2 = 2 \<and> codec_ctx s2 = codec_ctx s1"
proof -
  let ?s0 = "constructed one_packet blank :: script H265Publisher"
  have r0: "publish_all scripted [] ?s0 = Some (Returned ?s0)"
    by simp
  from first_call_counter obtain s1 where
    p1: "publish scripted (image 64 64) ?s0 = Some (Returned s1)"
    and h1: "height (codec_ctx s1) = 64" and f1: "frameCount s1 = 1"
    by blast
  from p1 have r1: "publish_all scripted [image 64 64] ?s0 = Some (Returned s1)"
    by simp
  from second_call_one_packet [OF p1] obtain s2 where
    p2: "publish scripted (image 64 64) s1 = Some (Returned s2)" ..
  from envelope_plain obtain msg where
    em: "envelope (layout scripted) (image 64 64) packet_plain 0x1000 = Some msg"
    and lm: "pts_offset (layout scripted) packet_plain 0x1000 + 8 \<le> length (c_data msg)"
    by blast
  have h0: "height (codec_ctx ?s0) = 0" "frameCount ?s0 = 0"
    by (simp_all add: constructed_def default_context_def)
  note first = frame_counter_is_pts [OF r0 p1, where hp = packet_plain and p = "0x1000"
      and msg = msg and c = "codec_ctx ?s0"]
  note second = frame_counter_is_pts [OF r1 p2, where hp = packet_plain and p = "0x1000"
      and msg = msg and c = "codec_ctx ?s0"]
  from first em lm have
    pf: "pts_field (layout scripted) packet_plain 0x1000 (c_data msg)
         = load_bytes packet_plain (member 0x1000 (pkt_pts (layout scripted))) 8"
    by blast
  from first h0 have
    sg1: "\<exists>seg. trace s1 = trace ?s0 @ seg \<and> call_trace scripted 0 0 (image 64 64) seg"
    by auto
  from first h0 have
    cx: "width (codec_ctx s1) = 64 \<and> height (codec_ctx s1) = 64
     \<and> pix_fmt (codec_ctx s1) = AV_PIX_FMT_YUV420P"
    by (simp add: image_def)
  from second f1 have ct: "count_list (trace s1) Sws_Scale \<le> 1"
    by simp
  from second h1 f1 have
    sg2: "\<exists>seg n p. trace s2 = trace s1 @ seg
          \<and> call_trace scripted 64 1 (image 64 64) seg
          \<and> submitted_pts seg = replicate (n + 2) 1
          \<and> Packet_Alloc p \<in> set seg
          \<and> map Some (published seg)
              = map (\<lambda>hp. envelope (layout scripted) (image 64 64) hp p) (received seg)"
    and f2: "frameCount s2 = 2" and c2: "codec_ctx s2 = codec_ctx s1"
    by auto
  show ?thesis
    using r0 p1 r1 p2 em lm pf sg1 cx f1 ct sg2 f2 c2 by blast
qed

text \<open>
  C8.  In every state a session reaches from a fresh publisher with the guard set, the time
  base is the one \<open>configure\<close> stored, 1/30, and rescaling between that time base and itself
  returns every timestamp as it is; so the rescale step of lines 290 to 304 leaves the
  packet's memory as the encoder wrote it, and the envelope is the one of the encoder's
  packet.  The same holds with the context a call has just configured.  A timestamp equal to
  \<open>AV_NOPTS_VALUE\<close> is not rescaled, whatever the time base.
\<close>

theorem rescale_leaves_timestamps:
  assumes "publish_all lib ms (constructed e h0) = Some r"
    and "height (codec_ctx (final r)) \<noteq> 0"
  shows "av_rescale_q t (time_base (codec_ctx (final r))) (time_base (codec_ctx (final r))) = t
     \<and> rescale_timestamps L (codec_ctx (final r)) h p = h
     \<and> envelope L m (rescale_timestamps L (codec_ctx (final r)) h p) p = envelope L m h p
     \<and> rescale_timestamps L (configure m c) h p = h
     \<and> (load_i64 h a = AV_NOPTS_VALUE \<longrightarrow> rescale_member tb h a = h)"
proof -
  have "time_base_set (constructed e h0)"
    by (simp add: time_base_set_def constructed_def default_context_def)
  from publish_all_time_base [OF this assms(1)] assms(2) have
    tb: "time_base (codec_ctx (final r)) = \<lparr> num = 1, den = 30 \<rparr>"
    by (simp add: time_base_set_def)
  then have "av_rescale_q t (time_base (codec_ctx (final r))) (time_base (codec_ctx (final r))) = t"
    by (simp add: av_rescale_q_same)
  moreover from tb have "rescale_timestamps L (codec_ctx (final r)) h p = h"
    by (simp add: rescale_timestamps_same)
  moreover have "rescale_timestamps L (configure m c) h p = h"
    by (simp add: rescale_timestamps_same time_base_configure)
  moreover have "load_i64 h a = AV_NOPTS_VALUE \<longrightarrow> rescale_member tb h a = h"
    by (simp add: rescale_member_def)
  ultimately show ?thesis by simp
qed

theorem rescale_leaves_timestamps_witness:
  "\<exists>r. publish_all scripted [image 64 64] (constructed one_packet blank) = Some r
     \<and> height (codec_ctx (final r)) \<noteq> 0
     \<and> load_i64 unset_stamp 0x1000 = AV_NOPTS_VALUE
     \<and> av_rescale_q 7 (time_base (codec_ctx (final r))) (time_base (codec_ctx (final r))) = 7
     \<and> rescale_timestamps lavc_lp64 (codec_ctx (final r)) unset_stamp 0x1000 = unset_stamp
     \<and> envelope lavc_lp64 (image 64 64)
          (rescale_timestamps lavc_lp64 (codec_ctx (final r)) unset_stamp 0x1000) 0x1000
        = envelope lavc_lp64 (image 64 64) unset_stamp 0x1000
     \<and> rescale_timestamps lavc_lp64 (configure (image 64 64) default_context) unset_stamp 0x1000
        = unset_stamp
     \<and> rescale_member \<lparr> num = 0, den = 1 \<rparr> unset_stamp 0x1000 = unset_stamp"
proof -
  from first_call_one_packet obtain s where
    s: "publish scripted (image 64 64) (constructed one_packet blank) = Some (Returned s)"
    and h: "height (codec_ctx s) \<noteq> 0"
    by auto
  from s have r: "publish_all scripted [image 64 64] (constructed one_packet blank)
      = Some (Returned s)"
    by simp
  from h have h': "height (codec_ctx (final (Returned s))) \<noteq> 0"
    by simp
  have u: "load_i64 unset_stamp 0x1000 = AV_NOPTS_VALUE"
    by (simp add: unset_stamp_def AV_NOPTS_VALUE_def load_i64_def load_bytes_hit)
  from rescale_leaves_timestamps [OF r h', of 7 lavc_lp64 unset_stamp "0x1000" "image 64 64"
      default_context "0x1000" "\<lparr> num = 0, den = 1 \<rparr>"]
  show ?thesis
    using r h' u by (intro exI [of _ "Returned s"]) simp
qed

text \<open>
  C9.  A session that returns leaves a trace that is the concatenation of one segment per
  call, in the order of the calls.  Each segment starts with the lock and ends with its
  release.  A call that finds the guard at 0 runs the configuration block first; if the
  configuration fails the segment ends there, and this is the only call that submits
  nothing.  Every other call, and every call that finds the guard set, submits its frame,
  whose pts is the frame counter, and then drains to the end: every packet the encoder
  returns is followed at once by the message that carries its envelope, and the drain ends at
  the first request the encoder answers without a packet.  So the messages of one call are in
  the order the encoder emitted the packets, and all of them precede the first submission of
  the next call.  The lock is the sequential side of the mutex: it is taken first and
  released last in every call.
\<close>

theorem envelopes_in_order:
  assumes "publish_all lib ms s = Some (Returned s')" and "time_base_set s"
  shows "\<exists>segs. trace s' = trace s @ concat segs
     \<and> session_trace lib (height (codec_ctx s)) (frameCount s) ms segs"
  using assms
proof (induction ms arbitrary: s)
  case Nil
  then have "trace s' = trace s @ concat []" by simp
  moreover have "session_trace lib (height (codec_ctx s)) (frameCount s) [] []" by simp
  ultimately show ?case by blast
next
  case (Cons m ms)
  from Cons.prems(1) obtain s1 where p: "publish lib m s = Some (Returned s1)"
    and rest: "publish_all lib ms s1 = Some (Returned s')"
    by (cases "publish lib m s") (auto split: outcome.splits)
  from publish_time_base [OF Cons.prems(2) p] have
    tb: "time_base_set s1" and pos: "positive_time_base (codec_ctx s1)"
    by (simp_all add: positive_time_base_def)
  from publish_segment [OF p] pos obtain seg where
    t: "trace s1 = trace s @ seg"
    and f: "frameCount s1 = frameCount s + of_nat (count_list seg Sws_Scale)"
    and c: "call_trace lib (height (codec_ctx s)) (frameCount s) m seg"
    by blast
  from publish_context [OF p] have
    g: "height (codec_ctx s1) = (if height (codec_ctx s) = 0 then img_height m
          else height (codec_ctx s))"
    by (simp add: configure_def Let_def)
  from Cons.IH [OF rest tb] obtain segs where
    t': "trace s' = trace s1 @ concat segs"
    and l: "session_trace lib (height (codec_ctx s1)) (frameCount s1) ms segs"
    by blast
  from t t' have "trace s' = trace s @ concat (seg # segs)" by simp
  moreover from c l f g have
    "session_trace lib (height (codec_ctx s)) (frameCount s) (m # ms) (seg # segs)"
    by simp
  ultimately show ?case by blast
qed

theorem envelopes_in_order_witness:
  "\<exists>s'. publish_all scripted [image 64 64, image 64 64] (constructed one_packet blank)
       = Some (Returned s')
     \<and> time_base_set (constructed one_packet blank)
     \<and> (\<exists>segs. trace s' = trace (constructed one_packet blank) @ concat segs
          \<and> session_trace scripted 0 0 [image 64 64, image 64 64] segs)"
proof -
  from two_calls_one_packet obtain s' where
    r: "publish_all scripted [image 64 64, image 64 64] (constructed one_packet blank)
       = Some (Returned s')" ..
  have tb: "time_base_set (constructed one_packet blank)"
    by (simp add: time_base_set_def constructed_def default_context_def)
  have h0: "height (codec_ctx (constructed one_packet blank :: script H265Publisher)) = 0"
    "frameCount (constructed one_packet blank :: script H265Publisher) = 0"
    by (simp_all add: constructed_def default_context_def)
  from envelopes_in_order [OF r tb] h0 show ?thesis
    using r tb by auto
qed

text \<open>
  C10.  A call on a configured session that returns has sent its frame to the encoder at
  least twice: the submission of line 241, whose result is overwritten, and those of the loop,
  which ends on the first result 0 and sends the same frame again after every other result
  (no result is told apart: \<open>AVERROR_EOF\<close>, \<open>EINVAL\<close> and \<open>ENOMEM\<close> are retried like
  \<open>EAGAIN\<close>).  All submissions carry the same frame, with the frame counter as \<open>pts\<close>;
  nothing is submitted after the loop.  With an encoder that never answers 0 the loop does
  not end (\<open>send_loop_never\<close>).
\<close>

theorem frame_submitted_twice:
  assumes "publish lib m s = Some (Returned s')" and "height (codec_ctx s) \<noteq> 0"
  shows "\<exists>outF p r0 loop rest. avOutFrame s = Some outF
     \<and> trace s' = trace s @ [Lock, Image_Copy, Sws_Scale, Packet_Alloc p]
          @ Send_Frame (outF\<lparr> pts := frameCount s \<rparr>) r0 # loop @ rest
     \<and> loop \<noteq> [] \<and> last loop = Send_Frame (outF\<lparr> pts := frameCount s \<rparr>) 0
     \<and> list_all (retried (outF\<lparr> pts := frameCount s \<rparr>)) (butlast loop)
     \<and> list_all (\<lambda>ev. \<not> is_send ev) rest"
proof -
  from publish_returned [OF assms(1)] assms(2) obtain outF p sends dr where
    t: "trace s' = trace s @ Lock # [] @ [Image_Copy, Sws_Scale, Packet_Alloc p] @ sends @ dr
               @ [Packet_Unref, Unlock]"
    and su: "submissions (outF\<lparr> pts := frameCount s \<rparr>) sends"
    and d: "list_all is_drain dr"
    and o: "avOutFrame s = Some outF"
    by auto
  let ?f = "outF\<lparr> pts := frameCount s \<rparr>"
  from su obtain r0 loop where sends: "sends = Send_Frame ?f r0 # loop"
    and rl: "retry_loop ?f loop"
    by (auto simp: submissions_def split: list.splits event.splits)
  have "list_all (\<lambda>ev. \<not> is_send ev) dr"
    using d
  proof (induction dr)
    case Nil
    then show ?case by simp
  next
    case (Cons ev dr)
    then show ?case by (cases ev) simp_all
  qed
  then have "list_all (\<lambda>ev. \<not> is_send ev) (dr @ [Packet_Unref, Unlock])" by simp
  moreover from t sends have "trace s' = trace s @ [Lock, Image_Copy, Sws_Scale, Packet_Alloc p]
          @ Send_Frame ?f r0 # loop @ (dr @ [Packet_Unref, Unlock])"
    by simp
  ultimately show ?thesis
    using o rl unfolding retry_loop_def by blast
qed

theorem frame_submitted_twice_witness:
  "\<exists>s s'. publish scripted (image 64 64) (constructed one_packet blank) = Some (Returned s)
     \<and> publish scripted (image 64 64) s = Some (Returned s')
     \<and> height (codec_ctx s) \<noteq> 0
     \<and> (\<exists>outF p r0 loop rest. avOutFrame s = Some outF
          \<and> trace s' = trace s @ [Lock, Image_Copy, Sws_Scale, Packet_Alloc p]
               @ Send_Frame (outF\<lparr> pts := frameCount s \<rparr>) r0 # loop @ rest
          \<and> loop \<noteq> [] \<and> last loop = Send_Frame (outF\<lparr> pts := frameCount s \<rparr>) 0
          \<and> list_all (retried (outF\<lparr> pts := frameCount s \<rparr>)) (butlast loop)
          \<and> list_all (\<lambda>ev. \<not> is_send ev) rest)"
proof -
  from first_call_one_packet obtain s where
    s: "publish scripted (image 64 64) (constructed one_packet blank) = Some (Returned s)"
    and h: "height (codec_ctx s) \<noteq> 0"
    by auto
  from second_call_one_packet [OF s] obtain s' where
    s': "publish scripted (image 64 64) s = Some (Returned s')" ..
  from frame_submitted_twice [OF s' h] show ?thesis
    using s s' h by blast
qed

end
